theory Spec2Isabelle
  imports Main "HOL-Library.Sublist"
begin

section \<open>The backup restore endpoint of VoiceHub\<close>

text \<open>
  A shallow embedding of \<^verbatim>\<open>server/api/admin/backup/restore.post.ts\<close>: the handler
  that checks the caller's role, reads a backup file named in the request body, optionally
  clears the store, and replays the collections of the backup through the ORM inside one
  transaction. Line numbers in the comments are lines of that file.

  The program talks to three things it does not contain: the file system, the JSON parser
  and the ORM client. The first two are parameters of the model (\<open>readFile\<close>,
  \<open>JSON_parse\<close>); the ORM client is a parameter too (\<open>prisma\<close>, a function from
  a call and a store state to an outcome and a new state), so that what is proved of the
  handler's control flow holds for every store. Console output is not modelled.
\<close>

subsection \<open>JavaScript values\<close>

text \<open>
  The values the handler sees: what \<^verbatim>\<open>JSON.parse\<close> and \<^verbatim>\<open>readBody\<close> return,
  \<^verbatim>\<open>undefined\<close> for a missing property, and the \<^verbatim>\<open>Date\<close> objects it builds with
  \<^verbatim>\<open>new Date(v)\<close> (kept as \<open>JDate v\<close>, uninterpreted). Numbers are only tested for
  being zero and compared, so they are integers here. An object is the list of its own
  properties; a lookup takes the first binding of a name.
\<close>

datatype jsval =
    JUndefined
  | JNull
  | JBool bool
  | JNum int
  | JStr string
  | JArr "jsval list"
  | JObj "(string \<times> jsval) list"
  | JDate jsval

fun truthy :: "jsval \<Rightarrow> bool" where
  "truthy JUndefined = False"
| "truthy JNull = False"
| "truthy (JBool b) = b"
| "truthy (JNum n) = (n \<noteq> 0)"
| "truthy (JStr s) = (s \<noteq> [])"
| "truthy (JArr xs) = True"
| "truthy (JObj fs) = True"
| "truthy (JDate v) = True"

fun nullish :: "jsval \<Rightarrow> bool" where
  "nullish JUndefined = True"
| "nullish JNull = True"
| "nullish v = False"

text \<open>
  An exception is a value. \<open>HttpError c m\<close> is what \<^verbatim>\<open>createError\<close> builds
  (\<^verbatim>\<open>statusCode\<close>, \<^verbatim>\<open>statusMessage\<close>); \<open>Thrown m\<close> is any other exception, with
  its \<^verbatim>\<open>message\<close>: it has no \<^verbatim>\<open>statusCode\<close> and no \<^verbatim>\<open>statusMessage\<close>.
\<close>

datatype error = HttpError int string | Thrown string

fun error_message :: "error \<Rightarrow> string" where
  "error_message (Thrown m) = m"
| "error_message (HttpError c m) = m"

fun typeof_nullish :: "jsval \<Rightarrow> string" where
  "typeof_nullish JNull = ''null''"
| "typeof_nullish v = ''undefined''"

definition cannot_read :: "jsval \<Rightarrow> string \<Rightarrow> string" where
  \<comment> \<open>the message of the TypeError of a property read on null or undefined (V8, Node 20)\<close>
  "cannot_read v k =
     ''Cannot read properties of '' @ typeof_nullish v @ '' (reading '' @ [CHR 0x27] @ k @ [CHR 0x27] @ '')''"

text \<open>
  \<open>getprop v k\<close> is \<^verbatim>\<open>v[k]\<close> for a value that is neither null nor undefined. The
  names the handler reads are not properties of the prototypes of strings, numbers,
  booleans, arrays or plain objects, so a read on anything but an object with that own
  property gives \<^verbatim>\<open>undefined\<close>. \<open>readProp\<close> is the read on any value: it throws on
  null and undefined.
\<close>

fun getprop :: "jsval \<Rightarrow> string \<Rightarrow> jsval" where
  "getprop (JObj fs) k = (case map_of fs k of Some v \<Rightarrow> v | None \<Rightarrow> JUndefined)"
| "getprop v k = JUndefined"

definition readProp :: "jsval \<Rightarrow> string \<Rightarrow> error + jsval" where
  "readProp v k = (if nullish v then Inl (Thrown (cannot_read v k)) else Inr (getprop v k))"

definition bindE :: "error + 'a \<Rightarrow> ('a \<Rightarrow> error + 'b) \<Rightarrow> error + 'b" where
  "bindE m f = (case m of Inl e \<Rightarrow> Inl e | Inr x \<Rightarrow> f x)"

text \<open>
  An object literal \<^verbatim>\<open>{k1: e1, k2: e2, ...}\<close> evaluates its property values from left
  to right; the first one that throws ends the evaluation.
\<close>

fun objlit :: "(string \<times> (error + jsval)) list \<Rightarrow> error + (string \<times> jsval) list" where
  "objlit [] = Inr []"
| "objlit ((k, e) # rest) =
     (case e of
        Inl err \<Rightarrow> Inl err
      | Inr v \<Rightarrow> (case objlit rest of Inl err \<Rightarrow> Inl err | Inr fs \<Rightarrow> Inr ((k, v) # fs)))"

definition dateOrNull :: "jsval \<Rightarrow> string \<Rightarrow> error + jsval" where
  \<comment> \<open>\<^verbatim>\<open>record.k ? new Date(record.k) : null\<close>\<close>
  "dateOrNull r k = bindE (readProp r k) (\<lambda>v. if truthy v then Inr (JDate v) else Inr JNull)"

subsection \<open>Messages\<close>

definition msg_forbidden :: string where
  \<comment> \<open>statusMessage of the 403 error (line 13), as UTF-8 bytes\<close>
  "msg_forbidden =
   [CHR 0xE6, CHR 0x9D, CHR 0x83, CHR 0xE9, CHR 0x99, CHR 0x90, CHR 0xE4, CHR 0xB8,
    CHR 0x8D, CHR 0xE8, CHR 0xB6, CHR 0xB3]"

definition msg_no_filename :: string where
  \<comment> \<open>statusMessage of the 400 error for a missing filename (line 23), as UTF-8 bytes\<close>
  "msg_no_filename =
   [CHR 0xE8, CHR 0xAF, CHR 0xB7, CHR 0xE6, CHR 0x8C, CHR 0x87, CHR 0xE5, CHR 0xAE,
    CHR 0x9A, CHR 0xE5, CHR 0xA4, CHR 0x87, CHR 0xE4, CHR 0xBB, CHR 0xBD, CHR 0xE6,
    CHR 0x96, CHR 0x87, CHR 0xE4, CHR 0xBB, CHR 0xB6, CHR 0xE5, CHR 0x90, CHR 0x8D]"

definition msg_not_found :: string where
  \<comment> \<open>statusMessage of the 404 error (line 40), as UTF-8 bytes\<close>
  "msg_not_found =
   [CHR 0xE5, CHR 0xA4, CHR 0x87, CHR 0xE4, CHR 0xBB, CHR 0xBD, CHR 0xE6, CHR 0x96,
    CHR 0x87, CHR 0xE4, CHR 0xBB, CHR 0xB6, CHR 0xE4, CHR 0xB8, CHR 0x8D, CHR 0xE5,
    CHR 0xAD, CHR 0x98, CHR 0xE5, CHR 0x9C, CHR 0xA8, CHR 0xE6, CHR 0x88, CHR 0x96,
    CHR 0xE6, CHR 0xA0, CHR 0xBC, CHR 0xE5, CHR 0xBC, CHR 0x8F, CHR 0xE9, CHR 0x94,
    CHR 0x99, CHR 0xE8, CHR 0xAF, CHR 0xAF]"

definition msg_bad_format :: string where
  \<comment> \<open>statusMessage of the 400 error for a malformed document (line 48), as UTF-8 bytes\<close>
  "msg_bad_format =
   [CHR 0xE5, CHR 0xA4, CHR 0x87, CHR 0xE4, CHR 0xBB, CHR 0xBD, CHR 0xE6, CHR 0x96,
    CHR 0x87, CHR 0xE4, CHR 0xBB, CHR 0xB6, CHR 0xE6, CHR 0xA0, CHR 0xBC, CHR 0xE5,
    CHR 0xBC, CHR 0x8F, CHR 0xE6, CHR 0x97, CHR 0xA0, CHR 0xE6, CHR 0x95, CHR 0x88]"

definition msg_done :: string where
  \<comment> \<open>initial message of the result (line 60), as UTF-8 bytes\<close>
  "msg_done =
   [CHR 0xE6, CHR 0x95, CHR 0xB0, CHR 0xE6, CHR 0x8D, CHR 0xAE, CHR 0xE6, CHR 0x81,
    CHR 0xA2, CHR 0xE5, CHR 0xA4, CHR 0x8D, CHR 0xE5, CHR 0xAE, CHR 0x8C, CHR 0xE6,
    CHR 0x88, CHR 0x90]"

definition msg_clear_failed :: string where
  \<comment> \<open>prefix of the pre-clear warning (line 86), as UTF-8 bytes\<close>
  "msg_clear_failed =
   [CHR 0xE6, CHR 0xB8, CHR 0x85, CHR 0xE7, CHR 0xA9, CHR 0xBA, CHR 0xE6, CHR 0x95,
    CHR 0xB0, CHR 0xE6, CHR 0x8D, CHR 0xAE, CHR 0xE5, CHR 0xA4, CHR 0xB1, CHR 0xE8,
    CHR 0xB4, CHR 0xA5, CHR '':'', CHR '' '']"

definition msg_done_with_errors :: string where
  \<comment> \<open>message of a result with errors (line 298), as UTF-8 bytes\<close>
  "msg_done_with_errors =
   [CHR 0xE6, CHR 0x95, CHR 0xB0, CHR 0xE6, CHR 0x8D, CHR 0xAE, CHR 0xE6, CHR 0x81,
    CHR 0xA2, CHR 0xE5, CHR 0xA4, CHR 0x8D, CHR 0xE5, CHR 0xAE, CHR 0x8C, CHR 0xE6,
    CHR 0x88, CHR 0x90, CHR 0xEF, CHR 0xBC, CHR 0x8C, CHR 0xE4, CHR 0xBD, CHR 0x86,
    CHR 0xE5, CHR 0xAD, CHR 0x98, CHR 0xE5, CHR 0x9C, CHR 0xA8, CHR 0xE9, CHR 0x94,
    CHR 0x99, CHR 0xE8, CHR 0xAF, CHR 0xAF]"

definition msg_restore_failed :: string where
  \<comment> \<open>default statusMessage of the outer catch (line 307), as UTF-8 bytes\<close>
  "msg_restore_failed =
   [CHR 0xE6, CHR 0x81, CHR 0xA2, CHR 0xE5, CHR 0xA4, CHR 0x8D, CHR 0xE6, CHR 0x95,
    CHR 0xB0, CHR 0xE6, CHR 0x8D, CHR 0xAE, CHR 0xE5, CHR 0xBA, CHR 0x93, CHR 0xE5,
    CHR 0xA4, CHR 0x87, CHR 0xE4, CHR 0xBB, CHR 0xBD, CHR 0xE5, CHR 0xA4, CHR 0xB1,
    CHR 0xE8, CHR 0xB4, CHR 0xA5]"

subsection \<open>Paths\<close>

text \<open>
  \<^verbatim>\<open>path.join\<close> of Node on POSIX (the image is \<^verbatim>\<open>node:20-alpine\<close>): the non-empty
  arguments are joined with a slash and the result is normalised: empty and \<^verbatim>\<open>.\<close>
  segments are dropped, a \<^verbatim>\<open>..\<close> segment removes the segment before it, and at the
  root of an absolute path it is dropped.
\<close>

fun split_slash :: "string \<Rightarrow> string list" where
  "split_slash [] = [[]]"
| "split_slash (c # cs) =
     (if c = CHR ''/'' then [] # split_slash cs
      else (case split_slash cs of seg # segs \<Rightarrow> (c # seg) # segs | [] \<Rightarrow> [[c]]))"

fun join_slash :: "string list \<Rightarrow> string" where
  "join_slash [] = []"
| "join_slash [s] = s"
| "join_slash (s # t # ss) = s @ ''/'' @ join_slash (t # ss)"

fun normalizeSegments :: "bool \<Rightarrow> string list \<Rightarrow> string list \<Rightarrow> string list" where
  \<comment> \<open>the second argument is the result so far, last segment first\<close>
  "normalizeSegments allowAboveRoot acc [] = rev acc"
| "normalizeSegments allowAboveRoot acc (seg # segs) =
     (if seg = [] \<or> seg = ''.'' then normalizeSegments allowAboveRoot acc segs
      else if seg = ''..'' then
        (case acc of
           lastSeg # below \<Rightarrow>
             (if lastSeg = ''..'' then normalizeSegments allowAboveRoot (seg # acc) segs
              else normalizeSegments allowAboveRoot below segs)
         | [] \<Rightarrow>
             (if allowAboveRoot then normalizeSegments allowAboveRoot [seg] segs
              else normalizeSegments allowAboveRoot [] segs))
      else normalizeSegments allowAboveRoot (seg # acc) segs)"

definition normalize_path :: "string \<Rightarrow> string" where
  "normalize_path p =
     (if p = [] then ''.''
      else
        (let isAbsolute = (hd p = CHR ''/'');
             trailingSeparator = (last p = CHR ''/'');
             q = join_slash (normalizeSegments (\<not> isAbsolute) [] (split_slash p))
         in if q = [] then (if isAbsolute then ''/'' else if trailingSeparator then ''./'' else ''.'')
            else (if isAbsolute then ''/'' else []) @ q @ (if trailingSeparator then ''/'' else [])))"

definition path_join :: "string list \<Rightarrow> string" where
  "path_join args =
     (let parts = filter (\<lambda>a. a \<noteq> []) args
      in if parts = [] then ''.'' else normalize_path (join_slash parts))"

definition inside :: "string \<Rightarrow> string \<Rightarrow> bool" where
  \<comment> \<open>the path \<open>p\<close> is the directory \<open>dir\<close> or lies below it\<close>
  "inside dir p = (p = dir \<or> prefix (dir @ ''/'') p)"

subsection \<open>The ORM client, the world and the result\<close>

text \<open>
  The models of the ORM client that the handler names, and the calls it makes on them:
  \<^verbatim>\<open>deleteMany()\<close>, \<^verbatim>\<open>create({data})\<close>, \<^verbatim>\<open>upsert({where, update, create})\<close>,
  and the start and the commit of \<^verbatim>\<open>$transaction\<close>. An argument object is the list of
  its properties in the order the source writes them.
\<close>

datatype model =
  Notification | NotificationSettings | Schedule | Vote | Song | User | PlayTime | Semester
  | SystemSettings

type_synonym fields = "(string \<times> jsval) list"

datatype prisma_call =
    DeleteMany model
  | Create model fields
  | Upsert model fields fields fields
  | TxBegin
  | TxCommit

text \<open>
  A store is any function from a call and a state to an outcome (\<open>None\<close> when the call
  returns, \<open>Some m\<close> when it throws an error with message \<open>m\<close>) and the next state.
\<close>

type_synonym 's client = "prisma_call \<Rightarrow> 's \<Rightarrow> string option \<times> 's"

record 's env =
  cwd :: string
  readFile :: "string \<Rightarrow> string option"
  JSON_parse :: "string \<Rightarrow> jsval option"
  prisma :: "'s client"

text \<open>
  The world the handler acts on: the state of the store, and two logs kept for the
  statements below: every call made on the ORM client with its outcome, and every path
  handed to \<^verbatim>\<open>fs.readFile\<close>.
\<close>

record 's world =
  store :: 's
  calls :: "(prisma_call \<times> string option) list"
  reads :: "string list"

definition call :: "'s client \<Rightarrow> prisma_call \<Rightarrow> 's world \<Rightarrow> string option \<times> 's world" where
  "call db c w =
     (case db c (store w) of
        (r, s') \<Rightarrow> (r, w\<lparr>store := s', calls := calls w @ [(c, r)]\<rparr>))"

record details =
  tablesProcessed :: nat
  recordsRestored :: nat
  errors :: "string list"
  warnings :: "string list"

record restoreResults =
  success :: bool
  message :: string
  details :: details

record request =
  user :: jsval
  body :: jsval

definition initialResults :: restoreResults where
  \<comment> \<open>lines 58-67\<close>
  "initialResults =
     \<lparr>success = True, message = msg_done,
      details = \<lparr>tablesProcessed = 0, recordsRestored = 0, errors = [], warnings = []\<rparr>\<rparr>"

definition push_error :: "string \<Rightarrow> restoreResults \<Rightarrow> restoreResults" where
  "push_error e res = res\<lparr>details := (details res)\<lparr>errors := errors (details res) @ [e]\<rparr>\<rparr>"

definition push_warning :: "string \<Rightarrow> restoreResults \<Rightarrow> restoreResults" where
  "push_warning e res = res\<lparr>details := (details res)\<lparr>warnings := warnings (details res) @ [e]\<rparr>\<rparr>"

subsection \<open>The pre-clear (lines 70-88)\<close>

definition clearOrder :: "model list" where
  \<comment> \<open>the models of lines 74-82, in the order of the \<^verbatim>\<open>deleteMany\<close> calls\<close>
  "clearOrder =
     [Notification, NotificationSettings, Schedule, Vote, Song, User, PlayTime, Semester,
      SystemSettings]"

fun deleteAll :: "'s client \<Rightarrow> model list \<Rightarrow> 's world \<Rightarrow> string option \<times> 's world" where
  \<comment> \<open>the body of the \<^verbatim>\<open>try\<close>: the first call that throws ends it\<close>
  "deleteAll db [] w = (None, w)"
| "deleteAll db (m # ms) w =
     (case call db (DeleteMany m) w of
        (Some e, w') \<Rightarrow> (Some e, w')
      | (None, w') \<Rightarrow> deleteAll db ms w')"

definition clearExistingData ::
  "'s client \<Rightarrow> restoreResults \<times> 's world \<Rightarrow> restoreResults \<times> 's world" where
  "clearExistingData db = (\<lambda>(res, w).
     (case deleteAll db clearOrder w of
        (None, w') \<Rightarrow> (res, w')
      | (Some e, w') \<Rightarrow> (push_warning (msg_clear_failed @ e) res, w')))"

subsection \<open>The replay of one record (lines 121-277)\<close>

definition restoreOrder :: "string list" where
  \<comment> \<open>lines 91-101\<close>
  "restoreOrder =
     [''systemSettings'', ''playTimes'', ''semesters'', ''users'', ''songs'', ''votes'',
      ''schedules'', ''notificationSettings'', ''notifications'']"

definition userUpdate :: "jsval \<Rightarrow> error + fields" where
  \<comment> \<open>lines 128-136\<close>
  "userUpdate r = objlit
     [(''name'', readProp r ''name''),
      (''grade'', readProp r ''grade''),
      (''class'', readProp r ''class''),
      (''role'', readProp r ''role''),
      (''lastLogin'', dateOrNull r ''lastLogin''),
      (''lastLoginIp'', readProp r ''lastLoginIp''),
      (''passwordChangedAt'', dateOrNull r ''passwordChangedAt'')]"

definition userCreate :: "jsval \<Rightarrow> error + fields" where
  \<comment> \<open>lines 137-147 and 151-161\<close>
  "userCreate r = objlit
     [(''username'', readProp r ''username''),
      (''name'', readProp r ''name''),
      (''password'', readProp r ''password''),
      (''grade'', readProp r ''grade''),
      (''class'', readProp r ''class''),
      (''role'', readProp r ''role''),
      (''lastLogin'', dateOrNull r ''lastLogin''),
      (''lastLoginIp'', readProp r ''lastLoginIp''),
      (''passwordChangedAt'', dateOrNull r ''passwordChangedAt'')]"

definition songData :: "jsval \<Rightarrow> error + fields" where
  \<comment> \<open>lines 167-178\<close>
  "songData r = objlit
     [(''title'', readProp r ''title''),
      (''artist'', readProp r ''artist''),
      (''requesterId'', readProp r ''requesterId''),
      (''played'', readProp r ''played''),
      (''playedAt'', dateOrNull r ''playedAt''),
      (''semester'', readProp r ''semester''),
      (''preferredPlayTimeId'', readProp r ''preferredPlayTimeId''),
      (''cover'', readProp r ''cover''),
      (''musicPlatform'', readProp r ''musicPlatform''),
      (''musicId'', readProp r ''musicId'')]"

definition playTimeData :: "jsval \<Rightarrow> error + fields" where
  \<comment> \<open>lines 195-201 and 213-219\<close>
  "playTimeData r = objlit
     [(''name'', readProp r ''name''),
      (''startTime'', readProp r ''startTime''),
      (''endTime'', readProp r ''endTime''),
      (''enabled'', readProp r ''enabled''),
      (''description'', readProp r ''description'')]"

definition playTimeCreate :: "jsval \<Rightarrow> error + fields" where
  \<comment> \<open>lines 202-209\<close>
  "playTimeCreate r = objlit
     [(''id'', readProp r ''id''),
      (''name'', readProp r ''name''),
      (''startTime'', readProp r ''startTime''),
      (''endTime'', readProp r ''endTime''),
      (''enabled'', readProp r ''enabled''),
      (''description'', readProp r ''description'')]"

definition recordCall :: "jsval \<Rightarrow> string \<Rightarrow> jsval \<Rightarrow> (error + prisma_call) option" where
  \<comment> \<open>the \<^verbatim>\<open>switch\<close> of lines 123-271: the call a record leads to, the exception thrown
      while its arguments are built, or \<open>None\<close> in the \<^verbatim>\<open>default\<close> case\<close>
  "recordCall mode tableName r =
     (if tableName = ''users'' then
        (if mode = JStr ''merge'' then
           Some (bindE (objlit [(''username'', readProp r ''username'')]) (\<lambda>wh.
                 bindE (userUpdate r) (\<lambda>upd.
                 bindE (userCreate r) (\<lambda>crt. Inr (Upsert User wh upd crt)))))
         else Some (bindE (userCreate r) (\<lambda>d. Inr (Create User d))))
      else if tableName = ''songs'' then
        Some (bindE (songData r) (\<lambda>sd.
          if mode = JStr ''merge'' then
            bindE (objlit [(''id'', readProp r ''id'')]) (\<lambda>wh.
            bindE (readProp r ''id'') (\<lambda>i. Inr (Upsert Song wh sd (sd @ [(''id'', i)]))))
          else Inr (Create Song sd)))
      else if tableName = ''playTimes'' then
        (if mode = JStr ''merge'' then
           Some (bindE (objlit [(''id'', readProp r ''id'')]) (\<lambda>wh.
                 bindE (playTimeData r) (\<lambda>upd.
                 bindE (playTimeCreate r) (\<lambda>crt. Inr (Upsert PlayTime wh upd crt)))))
         else Some (bindE (playTimeData r) (\<lambda>d. Inr (Create PlayTime d))))
      else if tableName = ''semesters'' then
        (if mode = JStr ''merge'' then
           Some (bindE (objlit [(''name'', readProp r ''name'')]) (\<lambda>wh.
                 bindE (objlit [(''isActive'', readProp r ''isActive'')]) (\<lambda>upd.
                 bindE (objlit [(''name'', readProp r ''name''), (''isActive'', readProp r ''isActive'')])
                   (\<lambda>crt. Inr (Upsert Semester wh upd crt)))))
         else Some (bindE (objlit [(''name'', readProp r ''name''), (''isActive'', readProp r ''isActive'')])
                     (\<lambda>d. Inr (Create Semester d))))
      else if tableName = ''systemSettings'' then
        (if mode = JStr ''merge'' then
           Some (bindE (objlit [(''id'', readProp r ''id'')]) (\<lambda>wh.
                 bindE (objlit [(''enablePlayTimeSelection'', readProp r ''enablePlayTimeSelection'')])
                   (\<lambda>upd.
                 bindE (objlit [(''id'', readProp r ''id''),
                                (''enablePlayTimeSelection'', readProp r ''enablePlayTimeSelection'')])
                   (\<lambda>crt. Inr (Upsert SystemSettings wh upd crt)))))
         else Some (bindE (objlit [(''enablePlayTimeSelection'', readProp r ''enablePlayTimeSelection'')])
                     (\<lambda>d. Inr (Create SystemSettings d))))
      else None)"

datatype outcome = Restored | Skipped | Failed string

definition restoreRecord ::
  "'s client \<Rightarrow> jsval \<Rightarrow> string \<Rightarrow> jsval \<Rightarrow> 's world \<Rightarrow> outcome \<times> 's world" where
  \<comment> \<open>one turn of the loop of line 120: \<open>Restored\<close> reaches \<^verbatim>\<open>restoredCount++\<close>,
      \<open>Skipped\<close> is the \<^verbatim>\<open>continue\<close> of line 270, \<open>Failed\<close> is the \<^verbatim>\<open>catch\<close> of
      line 274 with the message of the exception\<close>
  "restoreRecord db mode tableName r w =
     (case recordCall mode tableName r of
        None \<Rightarrow> (Skipped, w)
      | Some (Inl e) \<Rightarrow> (Failed (error_message e), w)
      | Some (Inr c) \<Rightarrow>
          (case call db c w of
             (None, w') \<Rightarrow> (Restored, w')
           | (Some m, w') \<Rightarrow> (Failed m, w')))"

fun restoreRecords ::
  "'s client \<Rightarrow> jsval \<Rightarrow> string \<Rightarrow> jsval list \<Rightarrow> nat \<times> restoreResults \<times> 's world
     \<Rightarrow> nat \<times> restoreResults \<times> 's world" where
  \<comment> \<open>the loop of lines 120-278 over \<^verbatim>\<open>tableData\<close>; the number is \<^verbatim>\<open>restoredCount\<close>\<close>
  "restoreRecords db mode tableName [] st = st"
| "restoreRecords db mode tableName (r # rs) (restoredCount, res, w) =
     (case restoreRecord db mode tableName r w of
        (Restored, w') \<Rightarrow> restoreRecords db mode tableName rs (Suc restoredCount, res, w')
      | (Skipped, w') \<Rightarrow> restoreRecords db mode tableName rs (restoredCount, res, w')
      | (Failed m, w') \<Rightarrow>
          restoreRecords db mode tableName rs
            (restoredCount, push_error (tableName @ '': '' @ m) res, w'))"

subsection \<open>The replay of the collections (lines 104-289)\<close>

text \<open>
  \<open>data\<close> is \<^verbatim>\<open>backupData.data\<close>, which line 45 has found truthy, so the reads of
  line 106 and 110 do not throw. Nothing outside the \<^verbatim>\<open>try\<close> of line 121 throws inside
  the \<^verbatim>\<open>try\<close> of line 117, so the \<^verbatim>\<open>catch\<close> of line 284 is never entered and has no
  branch here.
\<close>

definition restoreTable ::
  "'s client \<Rightarrow> jsval \<Rightarrow> jsval \<Rightarrow> string \<Rightarrow> restoreResults \<times> 's world
     \<Rightarrow> restoreResults \<times> 's world" where
  "restoreTable db mode data tableName = (\<lambda>(res, w).
     (let tableData = getprop data tableName in
      if \<not> truthy tableData then (res, w)
      else
        (case tableData of
           JArr (r # rs) \<Rightarrow>
             (case restoreRecords db mode tableName (r # rs) (0, res, w) of
                (restoredCount, res', w') \<Rightarrow>
                  (res'\<lparr>details := (details res')
                      \<lparr>recordsRestored := recordsRestored (details res') + restoredCount,
                       tablesProcessed := Suc (tablesProcessed (details res'))\<rparr>\<rparr>, w'))
         | _ \<Rightarrow> (res, w))))"

definition restoreTables ::
  "'s client \<Rightarrow> jsval \<Rightarrow> jsval \<Rightarrow> restoreResults \<times> 's world \<Rightarrow> restoreResults \<times> 's world" where
  "restoreTables db mode data st = fold (restoreTable db mode data) restoreOrder st"

definition transaction ::
  "'s client \<Rightarrow> (restoreResults \<times> 's world \<Rightarrow> restoreResults \<times> 's world)
     \<Rightarrow> restoreResults \<times> 's world \<Rightarrow> (error + restoreResults) \<times> 's world" where
  \<comment> \<open>\<^verbatim>\<open>prisma.$transaction\<close> around a callback that does not throw: it rejects when
      the transaction cannot be started or cannot be committed\<close>
  "transaction db callback = (\<lambda>(res, w).
     (case call db TxBegin w of
        (Some e, w1) \<Rightarrow> (Inl (Thrown e), w1)
      | (None, w1) \<Rightarrow>
          (case callback (res, w1) of
             (res', w2) \<Rightarrow>
               (case call db TxCommit w2 of
                  (Some e, w3) \<Rightarrow> (Inl (Thrown e), w3)
                | (None, w3) \<Rightarrow> (Inr res', w3)))))"

definition finalize :: "restoreResults \<Rightarrow> restoreResults" where
  \<comment> \<open>lines 295-299\<close>
  "finalize res =
     (if length (errors (details res)) > 0
      then res\<lparr>success := False, message := msg_done_with_errors\<rparr>
      else res)"

subsection \<open>The handler (lines 6-310)\<close>

definition restoreData ::
  "'s client \<Rightarrow> jsval \<Rightarrow> jsval \<Rightarrow> jsval \<Rightarrow> 's world \<Rightarrow> (error + restoreResults) \<times> 's world" where
  \<comment> \<open>lines 58-301, for a document whose \<^verbatim>\<open>metadata\<close> and \<^verbatim>\<open>data\<close> are truthy\<close>
  "restoreData db mode clearExisting backupData w =
     (let st = (if truthy clearExisting then clearExistingData db (initialResults, w)
                else (initialResults, w))
      in case transaction db (restoreTables db mode (getprop backupData ''data'')) st of
           (Inl e, w') \<Rightarrow> (Inl e, w')
         | (Inr res, w') \<Rightarrow> (Inr (finalize res), w'))"

definition denied :: "jsval \<Rightarrow> bool" where
  \<comment> \<open>the condition of line 10; \<open>u\<close> is \<^verbatim>\<open>event.context.user\<close>\<close>
  "denied u = (\<not> truthy u \<or> \<not> (getprop u ''role'' \<in> set [JStr ''ADMIN'', JStr ''SUPER_ADMIN'']))"

definition withDefault :: "jsval \<Rightarrow> jsval \<Rightarrow> jsval" where
  \<comment> \<open>a destructuring default applies when the property is \<^verbatim>\<open>undefined\<close>\<close>
  "withDefault v d = (if v = JUndefined then d else v)"

definition cannot_destructure :: "jsval \<Rightarrow> string" where
  "cannot_destructure b =
     ''Cannot destructure property '' @ [CHR 0x27] @ ''filename'' @ [CHR 0x27] @ '' of ''
       @ [CHR 0x27] @ ''body'' @ [CHR 0x27] @ '' as it is '' @ typeof_nullish b @ ''.''"

definition invalid_path_argument :: string where
  \<comment> \<open>the start of the message of the TypeError of \<^verbatim>\<open>path.join\<close> on an argument that
      is not a string; the outer \<^verbatim>\<open>catch\<close> drops the message\<close>
  "invalid_path_argument =
     ''The '' @ [CHR 0x22] @ ''path'' @ [CHR 0x22] @ '' argument must be of type string''"

definition backupPath :: "string \<Rightarrow> string \<Rightarrow> string" where
  \<comment> \<open>lines 30-31; \<open>workdir\<close> is \<^verbatim>\<open>process.cwd()\<close>\<close>
  "backupPath workdir filename = path_join [path_join [workdir, ''backups''], filename]"

definition loadBackup ::
  "'s env \<Rightarrow> request \<Rightarrow> 's world \<Rightarrow> (error + jsval \<times> jsval \<times> jsval) \<times> 's world" where
  \<comment> \<open>lines 8-50: the role check, the request body, the file and its format; the result
      is \<^verbatim>\<open>mode\<close>, \<^verbatim>\<open>clearExisting\<close> and \<^verbatim>\<open>backupData\<close>\<close>
  "loadBackup env req w =
     (if denied (user req) then (Inl (HttpError 403 msg_forbidden), w)
      else if nullish (body req) then (Inl (Thrown (cannot_destructure (body req))), w)
      else
        (let filename = getprop (body req) ''filename'';
             mode = withDefault (getprop (body req) ''mode'') (JStr ''merge'');
             clearExisting = withDefault (getprop (body req) ''clearExisting'') (JBool False)
         in if \<not> truthy filename then (Inl (HttpError 400 msg_no_filename), w)
            else
              (case filename of
                 JStr name \<Rightarrow>
                   (let filepath = backupPath (cwd env) name;
                        w1 = w\<lparr>reads := reads w @ [filepath]\<rparr>
                    in case readFile env filepath of
                         None \<Rightarrow> (Inl (HttpError 404 msg_not_found), w1)
                       | Some fileContent \<Rightarrow>
                           (case JSON_parse env fileContent of
                              None \<Rightarrow> (Inl (HttpError 404 msg_not_found), w1)
                            | Some backupData \<Rightarrow>
                                (if nullish backupData
                                 then (Inl (Thrown (cannot_read backupData ''metadata'')), w1)
                                 else if \<not> truthy (getprop backupData ''metadata'')
                                         \<or> \<not> truthy (getprop backupData ''data'')
                                 then (Inl (HttpError 400 msg_bad_format), w1)
                                 else (Inr (mode, clearExisting, backupData), w1))))
               | _ \<Rightarrow> (Inl (Thrown invalid_path_argument), w))))"

definition try_handler ::
  "'s env \<Rightarrow> request \<Rightarrow> 's world \<Rightarrow> (error + restoreResults) \<times> 's world" where
  \<comment> \<open>the \<^verbatim>\<open>try\<close> block of lines 7-301\<close>
  "try_handler env req w =
     (case loadBackup env req w of
        (Inl e, w1) \<Rightarrow> (Inl e, w1)
      | (Inr (mode, clearExisting, backupData), w1) \<Rightarrow>
          restoreData (prisma env) mode clearExisting backupData w1)"

fun rethrow :: "error \<Rightarrow> error" where
  \<comment> \<open>the \<^verbatim>\<open>catch\<close> of lines 303-309\<close>
  "rethrow (HttpError c m) =
     HttpError (if c \<noteq> 0 then c else 500) (if m \<noteq> [] then m else msg_restore_failed)"
| "rethrow (Thrown m) = HttpError 500 msg_restore_failed"

definition handler ::
  "'s env \<Rightarrow> request \<Rightarrow> 's world \<Rightarrow> (error + restoreResults) \<times> 's world" where
  "handler env req w =
     (case try_handler env req w of
        (Inl e, w') \<Rightarrow> (Inl (rethrow e), w')
      | (Inr res, w') \<Rightarrow> (Inr res, w'))"


subsection \<open>A relational store\<close>

text \<open>
  Modelled from the spec: the relational store behind the ORM client and its schema, which
  are not part of the sources. The spec gives the store
  \<^verbatim>\<open>create/update/upsert/delete-many operations per collection\<close>, a natural unique key
  per collection (\<^verbatim>\<open>username\<close> for users, \<^verbatim>\<open>name\<close> for semesters, \<^verbatim>\<open>id\<close> for the
  others), an upsert keyed by it, and an insert that \<^verbatim>\<open>fails if the key already
  exists\<close>. A table is the list of its rows; a row maps column names to values. A row
  inserted without an \<^verbatim>\<open>id\<close> gets the next value of the table's counter. A property
  whose value is \<^verbatim>\<open>undefined\<close> is left out of a write, as the ORM client does. A call
  that fails leaves the store as it was; a transaction always starts and commits.
\<close>

type_synonym row = "string \<rightharpoonup> jsval"

record db =
  tables :: "model \<Rightarrow> row list"
  nextId :: "model \<Rightarrow> int"

fun keyField :: "model \<Rightarrow> string" where
  \<comment> \<open>Modelled from the spec: the natural unique key of each collection\<close>
  "keyField User = ''username''"
| "keyField Semester = ''name''"
| "keyField m = ''id''"

fun setFields :: "fields \<Rightarrow> row \<Rightarrow> row" where
  "setFields [] row = row"
| "setFields ((k, v) # fs) row = setFields fs (if v = JUndefined then row else row(k \<mapsto> v))"

definition rowsWith :: "string \<Rightarrow> jsval \<Rightarrow> row list \<Rightarrow> row list" where
  "rowsWith k v rows = filter (\<lambda>r. r k = Some v) rows"

definition missing_argument :: "string \<Rightarrow> string" where
  "missing_argument k = ''Argument '' @ k @ '' is missing''"

definition unique_failed :: "string \<Rightarrow> string" where
  "unique_failed k = ''Unique constraint failed on the fields: ('' @ k @ '')''"

definition db_create :: "model \<Rightarrow> fields \<Rightarrow> db \<Rightarrow> string option \<times> db" where
  \<comment> \<open>Modelled from the spec: the insert, which fails if the key already exists\<close>
  "db_create m d s =
     (let row0 = setFields d Map.empty;
          generated = (row0 ''id'' = None);
          row = (if generated then row0(''id'' \<mapsto> JNum (nextId s m)) else row0);
          k = keyField m
      in case row k of
           None \<Rightarrow> (Some (missing_argument k), s)
         | Some v \<Rightarrow>
             if nullish v then (Some (missing_argument k), s)
             else if rowsWith k v (tables s m) \<noteq> [] then (Some (unique_failed k), s)
             else (None,
                   s\<lparr>tables := (tables s)(m := tables s m @ [row]),
                     nextId := (if generated then (nextId s)(m := nextId s m + 1) else nextId s)\<rparr>))"

definition db_upsert :: "model \<Rightarrow> fields \<Rightarrow> fields \<Rightarrow> fields \<Rightarrow> db \<Rightarrow> string option \<times> db" where
  \<comment> \<open>Modelled from the spec: the upsert keyed by the natural unique key\<close>
  "db_upsert m wh upd crt s =
     (case wh of
        [(k, v)] \<Rightarrow>
          if k \<noteq> keyField m \<or> nullish v then (Some (missing_argument (keyField m)), s)
          else if rowsWith k v (tables s m) = [] then db_create m crt s
          else
            (let rows = map (\<lambda>r. if r k = Some v then setFields upd r else r) (tables s m)
             in if distinct (map (\<lambda>r. r k) rows)
                then (None, s\<lparr>tables := (tables s)(m := rows)\<rparr>)
                else (Some (unique_failed k), s))
      | _ \<Rightarrow> (Some (missing_argument (keyField m)), s))"

fun db_client :: "db client" where
  \<comment> \<open>Modelled from the spec: the ORM client on this store\<close>
  "db_client (DeleteMany m) s = (None, s\<lparr>tables := (tables s)(m := [])\<rparr>)"
| "db_client (Create m d) s = db_create m d s"
| "db_client (Upsert m wh upd crt) s = db_upsert m wh upd crt s"
| "db_client TxBegin s = (None, s)"
| "db_client TxCommit s = (None, s)"

definition unique_key :: "model \<Rightarrow> db \<Rightarrow> bool" where
  \<comment> \<open>no two rows of the table have the same natural key\<close>
  "unique_key m s = distinct (map (\<lambda>r. r (keyField m)) (tables s m))"

definition empty_db :: db where
  "empty_db = \<lparr>tables = (\<lambda>m. []), nextId = (\<lambda>m. 1)\<rparr>"


subsection \<open>Notions used in the statements\<close>

definition supported :: "string list" where
  \<comment> \<open>the \<^verbatim>\<open>case\<close> labels of the \<^verbatim>\<open>switch\<close> of line 123\<close>
  "supported = [''users'', ''songs'', ''playTimes'', ''semesters'', ''systemSettings'']"

fun collectionOf :: "model \<Rightarrow> string" where
  \<comment> \<open>the collection of the backup that a model of the ORM client holds: the first five
      pairs are the \<^verbatim>\<open>case\<close> labels and the models their branches call; the other four
      models have no branch and are paired by name\<close>
  "collectionOf User = ''users''"
| "collectionOf Song = ''songs''"
| "collectionOf PlayTime = ''playTimes''"
| "collectionOf Semester = ''semesters''"
| "collectionOf SystemSettings = ''systemSettings''"
| "collectionOf Vote = ''votes''"
| "collectionOf Schedule = ''schedules''"
| "collectionOf NotificationSettings = ''notificationSettings''"
| "collectionOf Notification = ''notifications''"

definition tableRecords :: "jsval \<Rightarrow> string \<Rightarrow> jsval list" where
  \<comment> \<open>the records of a collection of \<^verbatim>\<open>backupData.data\<close>; none when the property is
      not an array\<close>
  "tableRecords data t = (case getprop data t of JArr rs \<Rightarrow> rs | _ \<Rightarrow> [])"

fun isWrite :: "prisma_call \<Rightarrow> bool" where
  "isWrite (Create m d) = True"
| "isWrite (Upsert m wh upd crt) = True"
| "isWrite c = False"

definition applied :: "(prisma_call \<times> string option) list \<Rightarrow> nat" where
  \<comment> \<open>the number of \<^verbatim>\<open>create\<close> and \<^verbatim>\<open>upsert\<close> calls of a log that returned\<close>
  "applied log = length (filter (\<lambda>(c, r). isWrite c \<and> r = None) log)"

definition attempted :: "(prisma_call \<times> string option) list \<Rightarrow> nat" where
  \<comment> \<open>the number of \<^verbatim>\<open>create\<close> and \<^verbatim>\<open>upsert\<close> calls of a log\<close>
  "attempted log = length (filter (\<lambda>(c, r). isWrite c) log)"

fun deletedModel :: "prisma_call \<times> string option \<Rightarrow> model list" where
  "deletedModel (DeleteMany m, r) = [m]"
| "deletedModel (c, r) = []"

definition deletions :: "(prisma_call \<times> string option) list \<Rightarrow> model list" where
  \<comment> \<open>the models of the \<^verbatim>\<open>deleteMany\<close> calls of a log, in order\<close>
  "deletions log = concat (map deletedModel log)"

definition newCalls :: "'s world \<Rightarrow> 's world \<Rightarrow> (prisma_call \<times> string option) list" where
  \<comment> \<open>the calls logged between an earlier world and a later one\<close>
  "newCalls w w' = drop (length (calls w)) (calls w')"

subsection \<open>Sample inputs\<close>

definition admin :: jsval where
  "admin = JObj [(''id'', JNum 1), (''role'', JStr ''ADMIN'')]"

definition student :: jsval where
  "student = JObj [(''id'', JNum 7), (''role'', JStr ''USER'')]"

definition alice :: jsval where
  "alice = JObj [(''id'', JNum 3), (''username'', JStr ''alice''), (''name'', JStr ''Alice''),
                 (''password'', JStr ''hash-from-backup''), (''role'', JStr ''USER''),
                 (''lastLogin'', JStr ''2024-05-01T08:00:00.000Z'')]"

definition bob :: jsval where
  "bob = JObj [(''id'', JNum 4), (''username'', JStr ''bob''), (''name'', JStr ''Bob''),
               (''password'', JStr ''hash-of-bob''), (''role'', JStr ''USER'')]"

definition fall :: jsval where
  "fall = JObj [(''name'', JStr ''Fall''), (''isActive'', JBool True)]"

definition noon :: jsval where
  "noon = JObj [(''id'', JNum 5), (''name'', JStr ''noon''), (''startTime'', JStr ''12:00''),
                (''endTime'', JStr ''12:30''), (''enabled'', JBool True)]"

definition anthem :: jsval where
  "anthem = JObj [(''id'', JNum 9), (''title'', JStr ''Anthem''), (''artist'', JStr ''Choir''),
                  (''requesterId'', JNum 3), (''played'', JBool False),
                  (''preferredPlayTimeId'', JNum 5)]"

definition metadata0 :: jsval where
  "metadata0 = JObj [(''version'', JStr ''1.0''), (''creator'', JStr ''admin''),
                     (''totalRecords'', JNum 4)]"

definition backup_a :: jsval where
  \<comment> \<open>a backup with two users, a semester, a vote and a collection of an unknown name\<close>
  "backup_a = JObj
     [(''metadata'', metadata0),
      (''data'', JObj [(''users'', JArr [alice, bob]), (''semesters'', JArr [fall]),
                       (''votes'', JArr [JObj [(''id'', JNum 1)]]),
                       (''foo'', JArr [JObj [(''id'', JNum 1)]])])]"

definition backup_b :: jsval where
  \<comment> \<open>a backup in which the second of three users repeats the first, and a semester\<close>
  "backup_b = JObj
     [(''metadata'', metadata0),
      (''data'', JObj [(''users'', JArr [alice, alice, bob]), (''semesters'', JArr [fall])])]"

definition backup_c :: jsval where
  \<comment> \<open>a document without \<^verbatim>\<open>metadata\<close>\<close>
  "backup_c = JObj [(''data'', JObj [(''users'', JArr [alice])])]"

definition backup_d :: jsval where
  \<comment> \<open>a backup of one play time\<close>
  "backup_d = JObj [(''metadata'', metadata0), (''data'', JObj [(''playTimes'', JArr [noon])])]"

definition files :: "(string \<times> jsval) list" where
  \<comment> \<open>the files of the sample file system, each with the value its content parses to\<close>
  "files =
     [(''/app/backups/a.json'', backup_a),
      (''/app/backups/b.json'', backup_b),
      (''/app/backups/c.json'', backup_c),
      (''/app/backups/d.json'', backup_d),
      (''/app/secret.json'', backup_a)]"

definition sample_env :: "'s client \<Rightarrow> 's env" where
  \<comment> \<open>the content of a sample file is written as its path\<close>
  "sample_env db =
     \<lparr>cwd = ''/app'',
      readFile = (\<lambda>p. if map_of files p = None then None else Some p),
      JSON_parse = map_of files,
      prisma = db\<rparr>"

definition sample_request :: "string \<Rightarrow> string \<Rightarrow> bool \<Rightarrow> request" where
  "sample_request name mode clear =
     \<lparr>user = admin,
      body = JObj [(''filename'', JStr name), (''mode'', JStr mode), (''clearExisting'', JBool clear)]\<rparr>"

definition world0 :: "db world" where
  "world0 = \<lparr>store = empty_db, calls = [], reads = []\<rparr>"

definition world1 :: "db world" where
  \<comment> \<open>a store that holds the user alice with another password, and the play time 5\<close>
  "world1 =
     \<lparr>store =
        \<lparr>tables = (\<lambda>m. []) (User := [[''id'' \<mapsto> JNum 1, ''username'' \<mapsto> JStr ''alice'',
                                        ''password'' \<mapsto> JStr ''current-hash'',
                                        ''name'' \<mapsto> JStr ''A.'']],
                               PlayTime := [[''id'' \<mapsto> JNum 5, ''name'' \<mapsto> JStr ''lunch'']]),
         nextId = (\<lambda>m. 1) (User := 2, PlayTime := 6)\<rparr>,
      calls = [], reads = []\<rparr>"

definition merged_once :: "db world" where
  "merged_once = snd (restoreRecord db_client (JStr ''merge'') ''users'' alice world0)"

definition merged_twice :: "db world" where
  "merged_twice = snd (restoreRecord db_client (JStr ''merge'') ''users'' alice merged_once)"

definition merged_alice :: "db world" where
  "merged_alice = snd (restoreRecord db_client (JStr ''merge'') ''users'' alice world1)"

definition replaced_noon :: "db world" where
  "replaced_noon = snd (restoreRecord db_client (JStr ''replace'') ''playTimes'' noon world1)"

definition run_d :: "(error + restoreResults) \<times> db world" where
  "run_d = handler (sample_env db_client) (sample_request ''d.json'' ''replace'' False) world1"

definition run_a_replace :: "(error + restoreResults) \<times> db world" where
  "run_a_replace = handler (sample_env db_client) (sample_request ''a.json'' ''replace'' False) world1"

definition run_c :: "(error + restoreResults) \<times> db world" where
  "run_c = handler (sample_env db_client) (sample_request ''c.json'' ''merge'' True) world1"

definition run_escape :: "(error + restoreResults) \<times> db world" where
  "run_escape = handler (sample_env db_client) (sample_request ''../secret.json'' ''merge'' False) world0"

definition ready_client :: "unit client" where
  \<comment> \<open>a store without content that accepts every call\<close>
  "ready_client c s = (None, s)"

definition locked_client :: "unit client" where
  \<comment> \<open>the same for an account that may not delete from the table of users\<close>
  "locked_client c s =
     (if c = DeleteMany User then (Some ''permission denied for table User'', s) else (None, s))"

definition blank :: "unit world" where
  "blank = \<lparr>store = (), calls = [], reads = []\<rparr>"

definition backup_e :: jsval where
  \<comment> \<open>\<open>backup_a\<close> without the collection of an unknown name\<close>
  "backup_e = JObj
     [(''metadata'', metadata0),
      (''data'', JObj [(''users'', JArr [alice, bob]), (''semesters'', JArr [fall]),
                       (''votes'', JArr [JObj [(''id'', JNum 1)]])])]"

definition run_clear :: "(error + restoreResults) \<times> unit world" where
  "run_clear = handler (sample_env ready_client) (sample_request ''d.json'' ''merge'' True) blank"

definition run_a :: "(error + restoreResults) \<times> db world" where
  "run_a = handler (sample_env db_client) (sample_request ''a.json'' ''merge'' False) world0"

definition run_b :: "(error + restoreResults) \<times> db world" where
  "run_b = handler (sample_env db_client) (sample_request ''b.json'' ''replace'' False) world0"

definition run_locked :: "(error + restoreResults) \<times> unit world" where
  "run_locked = handler (sample_env locked_client) (sample_request ''d.json'' ''merge'' True) blank"


subsection \<open>Notions used in the proofs\<close>

definition entryOf :: "string \<Rightarrow> string \<Rightarrow> bool" where
  "entryOf t e = prefix (t @ '': '') e"

definition replayed ::
  "nat \<Rightarrow> nat \<Rightarrow> restoreResults \<times> 's world \<Rightarrow> restoreResults \<times> 's world \<Rightarrow> bool" where
  "replayed tabs recs = (\<lambda>(res, w) (res', w').
     success res' = success res \<and> message res' = message res
     \<and> warnings (details res') = warnings (details res)
     \<and> reads w' = reads w
     \<and> tablesProcessed (details res') = tablesProcessed (details res) + tabs
     \<and> (\<exists>log es.
           calls w' = calls w @ log
           \<and> errors (details res') = errors (details res) @ es
           \<and> recordsRestored (details res') = recordsRestored (details res) + applied log
           \<and> applied log + length es = recs
           \<and> attempted log = length log
           \<and> (\<forall>e \<in> set es. \<exists>t \<in> set supported. entryOf t e)))"

definition tablesIn :: "jsval \<Rightarrow> string list" where
  "tablesIn data = filter (\<lambda>t. tableRecords data t \<noteq> []) restoreOrder"

definition recordsIn :: "jsval \<Rightarrow> jsval list" where
  "recordsIn data = concat (map (tableRecords data) (filter (\<lambda>t. t \<in> set supported) restoreOrder))"

fun clearFailure :: "(prisma_call \<times> string option) list \<Rightarrow> string option" where
  "clearFailure [] = None"
| "clearFailure ((DeleteMany m, Some e) # log) = Some e"
| "clearFailure (x # log) = clearFailure log"

definition deleted :: "model list \<Rightarrow> (prisma_call \<times> string option) list" where
  "deleted ms = map (\<lambda>m. (DeleteMany m, None)) ms"

definition preClear ::
  "'s client \<Rightarrow> jsval \<Rightarrow> 's world \<Rightarrow> string option \<times> 's world" where
  "preClear db clearExisting w = (if truthy clearExisting then deleteAll db clearOrder w else (None, w))"

definition grows :: "db \<Rightarrow> db \<Rightarrow> bool" where
  \<comment> \<open>every table of the second store starts with the rows of the first\<close>
  "grows s s' = (\<forall>m. prefix (tables s m) (tables s' m))"

definition plain :: "string \<Rightarrow> bool" where
  \<comment> \<open>a segment of a normalised path: not empty, not \<^verbatim>\<open>.\<close>, not \<^verbatim>\<open>..\<close>, without a slash\<close>
  "plain seg = (seg \<noteq> [] \<and> seg \<noteq> ''.'' \<and> seg \<noteq> ''..'' \<and> CHR ''/'' \<notin> set seg)"

definition newReads :: "'s world \<Rightarrow> 's world \<Rightarrow> string list" where
  \<comment> \<open>the paths read between an earlier world and a later one\<close>
  "newReads w w' = drop (length (reads w)) (reads w')"

section \<open>The shape of a run\<close>

lemma call_log: "call db c w = (r, w') \<Longrightarrow> calls w' = calls w @ [(c, r)] \<and> reads w' = reads w"
  by (auto simp: call_def split: prod.splits)

lemma objlit_isWrite_aux: "bindE m f = Inr c \<Longrightarrow> \<exists>x. m = Inr x \<and> f x = Inr c"
  by (cases m) (auto simp: bindE_def)

lemma recordCall_isWrite: "recordCall mode t r = Some (Inr c) \<Longrightarrow> isWrite c \<and> t \<in> set supported"
  unfolding recordCall_def supported_def
  by (auto split: if_splits dest!: objlit_isWrite_aux)

lemma recordCall_None: "recordCall mode t r = None \<longleftrightarrow> t \<notin> set supported"
  unfolding recordCall_def supported_def by (auto split: if_splits)

lemma applied_simps [simp]:
  "applied [] = 0" "applied (log @ log') = applied log + applied log'"
  "applied [(c, r)] = (if isWrite c \<and> r = None then 1 else 0)"
  by (simp_all add: applied_def)

lemma attempted_simps [simp]:
  "attempted [] = 0" "attempted (log @ log') = attempted log + attempted log'"
  "attempted [(c, r)] = (if isWrite c then 1 else 0)"
  by (simp_all add: attempted_def)

lemma restoreRecord_cases:
  assumes "restoreRecord db mode t r w = (out, w')"
  shows "reads w' = reads w \<and>
    (case out of
       Restored \<Rightarrow> t \<in> set supported \<and> (\<exists>c. isWrite c \<and> calls w' = calls w @ [(c, None)])
     | Skipped \<Rightarrow> t \<notin> set supported \<and> w' = w
     | Failed m \<Rightarrow> t \<in> set supported \<and> (calls w' = calls w \<or> (\<exists>c. isWrite c \<and> calls w' = calls w @ [(c, Some m)])))"
proof (cases "recordCall mode t r")
  case None
  with assms show ?thesis by (auto simp: restoreRecord_def recordCall_None)
next
  case (Some a)
  show ?thesis
  proof (cases a)
    case (Inl e)
    with Some assms recordCall_None[of mode t r] show ?thesis by (auto simp: restoreRecord_def)
  next
    case (Inr c)
    with Some have w: "isWrite c" "t \<in> set supported" using recordCall_isWrite by blast+
    obtain x w1 where c: "call db c w = (x, w1)" by (cases "call db c w")
    from call_log[OF c] Some Inr assms c w show ?thesis
      by (cases x) (auto simp: restoreRecord_def)
  qed
qed

lemma push_error_simps [simp]:
  "success (push_error e res) = success res"
  "message (push_error e res) = message res"
  "warnings (details (push_error e res)) = warnings (details res)"
  "tablesProcessed (details (push_error e res)) = tablesProcessed (details res)"
  "recordsRestored (details (push_error e res)) = recordsRestored (details res)"
  "errors (details (push_error e res)) = errors (details res) @ [e]"
  by (simp_all add: push_error_def)

lemma restoreRecords_effect:
  "restoreRecords db mode t rs (n, res, w) = (n', res', w') \<Longrightarrow>
     success res' = success res \<and> message res' = message res
     \<and> warnings (details res') = warnings (details res)
     \<and> reads w' = reads w
     \<and> tablesProcessed (details res') = tablesProcessed (details res)
     \<and> recordsRestored (details res') = recordsRestored (details res)
     \<and> (\<exists>log es.
           calls w' = calls w @ log
           \<and> errors (details res') = errors (details res) @ es
           \<and> n' = n + applied log
           \<and> applied log + length es = (if t \<in> set supported then length rs else 0)
           \<and> attempted log = length log
           \<and> (\<forall>e \<in> set es. entryOf t e))"
proof (induction rs arbitrary: n res w)
  case Nil
  then show ?case by simp
next
  case (Cons r rs)
  obtain out w1 where step: "restoreRecord db mode t r w = (out, w1)"
    by (cases "restoreRecord db mode t r w")
  note facts = restoreRecord_cases[OF step]
  show ?case
  proof (cases out)
    case Restored
    with Cons.prems step have rest: "restoreRecords db mode t rs (Suc n, res, w1) = (n', res', w')"
      by simp
    from facts Restored obtain c where c: "isWrite c" "calls w1 = calls w @ [(c, None)]"
      and sup: "t \<in> set supported" and rd: "reads w1 = reads w" by auto
    from Cons.IH[OF rest] obtain log es where
      "calls w' = calls w1 @ log" "errors (details res') = errors (details res) @ es"
      "n' = Suc n + applied log" "applied log + length es = length rs"
      "attempted log = length log" "\<forall>e \<in> set es. entryOf t e"
      using sup by auto
    with c have "calls w' = calls w @ ((c, None) # log)
           \<and> errors (details res') = errors (details res) @ es
           \<and> n' = n + applied ((c, None) # log)
           \<and> applied ((c, None) # log) + length es = length (r # rs)
           \<and> attempted ((c, None) # log) = length ((c, None) # log)
           \<and> (\<forall>e \<in> set es. entryOf t e)"
      by (simp add: applied_def attempted_def)
    then have "\<exists>log es. calls w' = calls w @ log
           \<and> errors (details res') = errors (details res) @ es
           \<and> n' = n + applied log
           \<and> applied log + length es = length (r # rs)
           \<and> attempted log = length log
           \<and> (\<forall>e \<in> set es. entryOf t e)" by blast
    with Cons.IH[OF rest] rd sup show ?thesis by simp
  next
    case Skipped
    with Cons.prems step have rest: "restoreRecords db mode t rs (n, res, w1) = (n', res', w')"
      by simp
    from facts Skipped have "t \<notin> set supported" "w1 = w" by auto
    with Cons.IH[OF rest] show ?thesis by simp
  next
    case (Failed m)
    let ?e = "t @ '': '' @ m"
    from Failed Cons.prems step
    have rest: "restoreRecords db mode t rs (n, push_error ?e res, w1) = (n', res', w')"
      by simp
    from facts Failed have sup: "t \<in> set supported" and rd: "reads w1 = reads w"
      and cs: "calls w1 = calls w \<or> (\<exists>c. isWrite c \<and> calls w1 = calls w @ [(c, Some m)])" by auto
    from Cons.IH[OF rest] obtain log es where IH:
      "calls w' = calls w1 @ log" "errors (details res') = (errors (details res) @ [?e]) @ es"
      "n' = n + applied log" "applied log + length es = length rs"
      "attempted log = length log" "\<forall>e \<in> set es. entryOf t e"
      using sup by auto
    have e: "entryOf t ?e" by (simp add: entryOf_def)
    from cs obtain pre where pre: "calls w1 = calls w @ pre" "applied pre = 0" "attempted pre = length pre"
    proof
      assume "calls w1 = calls w"
      then show ?thesis using that[of "[]"] by simp
    next
      assume "\<exists>c. isWrite c \<and> calls w1 = calls w @ [(c, Some m)]"
      then obtain c where "isWrite c" "calls w1 = calls w @ [(c, Some m)]" by blast
      then show ?thesis using that[of "[(c, Some m)]"] by simp
    qed
    with IH e have "calls w' = calls w @ (pre @ log)
           \<and> errors (details res') = errors (details res) @ (?e # es)
           \<and> n' = n + applied (pre @ log)
           \<and> applied (pre @ log) + length (?e # es) = length (r # rs)
           \<and> attempted (pre @ log) = length (pre @ log)
           \<and> (\<forall>e \<in> set (?e # es). entryOf t e)"
      by simp
    then have "\<exists>log es. calls w' = calls w @ log
           \<and> errors (details res') = errors (details res) @ es
           \<and> n' = n + applied log
           \<and> applied log + length es = length (r # rs)
           \<and> attempted log = length log
           \<and> (\<forall>e \<in> set es. entryOf t e)" by blast
    with Cons.IH[OF rest] rd sup show ?thesis by simp
  qed
qed

lemma replayed_refl: "replayed 0 0 st st"
  by (cases st) (simp add: replayed_def)

lemma replayed_trans:
  assumes "replayed a b st st'" and "replayed c d st' st''"
  shows "replayed (a + c) (b + d) st st''"
proof -
  obtain res w res' w' res'' w'' where st: "st = (res, w)" "st' = (res', w')" "st'' = (res'', w'')"
    by (cases st, cases st', cases st'') auto
  from assms(1) st obtain log es where 1:
    "calls w' = calls w @ log" "errors (details res') = errors (details res) @ es"
    "recordsRestored (details res') = recordsRestored (details res) + applied log"
    "applied log + length es = b" "attempted log = length log"
    "\<forall>e \<in> set es. \<exists>t \<in> set supported. entryOf t e"
    by (auto simp: replayed_def)
  from assms(2) st obtain log' es' where 2:
    "calls w'' = calls w' @ log'" "errors (details res'') = errors (details res') @ es'"
    "recordsRestored (details res'') = recordsRestored (details res') + applied log'"
    "applied log' + length es' = d" "attempted log' = length log'"
    "\<forall>e \<in> set es'. \<exists>t \<in> set supported. entryOf t e"
    by (auto simp: replayed_def)
  from 1 2 have "calls w'' = calls w @ (log @ log')
      \<and> errors (details res'') = errors (details res) @ (es @ es')
      \<and> recordsRestored (details res'') = recordsRestored (details res) + applied (log @ log')
      \<and> applied (log @ log') + length (es @ es') = b + d
      \<and> attempted (log @ log') = length (log @ log')
      \<and> (\<forall>e \<in> set (es @ es'). \<exists>t \<in> set supported. entryOf t e)"
    by auto
  then have "\<exists>log es. calls w'' = calls w @ log
      \<and> errors (details res'') = errors (details res) @ es
      \<and> recordsRestored (details res'') = recordsRestored (details res) + applied log
      \<and> applied log + length es = b + d
      \<and> attempted log = length log
      \<and> (\<forall>e \<in> set es. \<exists>t \<in> set supported. entryOf t e)" by blast
  with assms st show ?thesis by (simp add: replayed_def)
qed

lemma restoreTable_replayed:
  "replayed (if tableRecords data t \<noteq> [] then 1 else 0)
           (if t \<in> set supported then length (tableRecords data t) else 0)
     st (restoreTable db mode data t st)"
proof -
  obtain res w where st: "st = (res, w)" by (cases st)
  show ?thesis
  proof (cases "\<exists>r rs. getprop data t = JArr (r # rs)")
    case False
    then have nil: "\<And>xs. getprop data t = JArr xs \<Longrightarrow> xs = []"
      by (metis list.exhaust)
    then have "tableRecords data t = []"
      by (cases "getprop data t") (auto simp: tableRecords_def)
    moreover from nil have "restoreTable db mode data t (res, w) = (res, w)"
      by (cases "getprop data t") (auto simp: restoreTable_def Let_def)
    ultimately show ?thesis using st by (simp add: replayed_refl)
  next
    case True
    then obtain r rs where arr: "getprop data t = JArr (r # rs)" by blast
    then have recs: "tableRecords data t = r # rs" by (simp add: tableRecords_def)
    obtain n' res' w' where run: "restoreRecords db mode t (r # rs) (0, res, w) = (n', res', w')"
      by (cases "restoreRecords db mode t (r # rs) (0, res, w)")
    from restoreRecords_effect[OF run] obtain log es where eff:
      "success res' = success res" "message res' = message res"
      "warnings (details res') = warnings (details res)" "reads w' = reads w"
      "tablesProcessed (details res') = tablesProcessed (details res)"
      "recordsRestored (details res') = recordsRestored (details res)"
      "calls w' = calls w @ log" "errors (details res') = errors (details res) @ es"
      "n' = applied log"
      "applied log + length es = (if t \<in> set supported then length (r # rs) else 0)"
      "attempted log = length log" "\<forall>e \<in> set es. entryOf t e"
      by auto
    have out: "restoreTable db mode data t (res, w) =
        (res'\<lparr>details := (details res')
            \<lparr>recordsRestored := recordsRestored (details res') + n',
             tablesProcessed := Suc (tablesProcessed (details res'))\<rparr>\<rparr>, w')"
      using arr run by (simp add: restoreTable_def Let_def del: restoreRecords.simps)
    have "t \<notin> set supported \<Longrightarrow> es = []" using eff(10) by simp
    with eff(12) have ent: "\<forall>e \<in> set es. \<exists>t \<in> set supported. entryOf t e"
      by (cases "t \<in> set supported") auto
    from eff ent have "\<exists>log es'. calls w' = calls w @ log
      \<and> errors (details res') = errors (details res) @ es'
      \<and> recordsRestored (details res') + n' = recordsRestored (details res) + applied log
      \<and> applied log + length es' = (if t \<in> set supported then length (r # rs) else 0)
      \<and> attempted log = length log
      \<and> (\<forall>e \<in> set es'. \<exists>t \<in> set supported. entryOf t e)"
      by (intro exI[of _ log] exI[of _ es]) simp
    with eff show ?thesis
      unfolding st out recs by (simp add: replayed_def)
  qed
qed

lemma fold_restoreTable_replayed:
  "replayed (length (filter (\<lambda>t. tableRecords data t \<noteq> []) ts'))
           (length (concat (map (tableRecords data) (filter (\<lambda>t. t \<in> set supported) ts'))))
     st (fold (restoreTable db mode data) ts' st)"
proof (induction ts' arbitrary: st)
  case Nil
  show ?case by (simp add: replayed_refl)
next
  case (Cons t ts')
  have "replayed
      ((if tableRecords data t \<noteq> [] then 1 else 0)
        + length (filter (\<lambda>t. tableRecords data t \<noteq> []) ts'))
      ((if t \<in> set supported then length (tableRecords data t) else 0)
        + length (concat (map (tableRecords data) (filter (\<lambda>t. t \<in> set supported) ts'))))
      st (fold (restoreTable db mode data) ts' (restoreTable db mode data t st))"
    by (rule replayed_trans[OF restoreTable_replayed Cons.IH])
  then show ?case by (auto split: if_splits)
qed

lemma restoreTables_replayed:
  "replayed (length (tablesIn data)) (length (recordsIn data))
     st (restoreTables db mode data st)"
  unfolding restoreTables_def tablesIn_def recordsIn_def
  by (rule fold_restoreTable_replayed)

lemma deleteAll_log:
  "deleteAll db ms w = (r, w') \<Longrightarrow>
     reads w' = reads w \<and>
     (case r of
        None \<Rightarrow> calls w' = calls w @ deleted ms
      | Some e \<Rightarrow> (\<exists>pre m post. ms = pre @ m # post
                     \<and> calls w' = calls w @ deleted pre @ [(DeleteMany m, Some e)]))"
proof (induction ms arbitrary: w)
  case Nil
  then show ?case by (simp add: deleted_def)
next
  case (Cons m ms)
  obtain x w1 where c: "call db (DeleteMany m) w = (x, w1)" by (cases "call db (DeleteMany m) w")
  note l = call_log[OF c]
  show ?case
  proof (cases x)
    case None
    with Cons.prems c have rest: "deleteAll db ms w1 = (r, w')" by simp
    from Cons.IH[OF rest] l None show ?thesis
    proof (cases r)
      case None
      with Cons.IH[OF rest] l \<open>x = None\<close> show ?thesis by (simp add: deleted_def)
    next
      case (Some e)
      with Cons.IH[OF rest] obtain pre m' post where
        "ms = pre @ m' # post" "calls w' = calls w1 @ deleted pre @ [(DeleteMany m', Some e)]"
        "reads w' = reads w1" by auto
      with l \<open>x = None\<close> have "m # ms = (m # pre) @ m' # post
          \<and> calls w' = calls w @ deleted (m # pre) @ [(DeleteMany m', Some e)]"
        by (simp add: deleted_def)
      then have "\<exists>pre m' post. m # ms = pre @ m' # post
          \<and> calls w' = calls w @ deleted pre @ [(DeleteMany m', Some e)]" by blast
      with Some l \<open>reads w' = reads w1\<close> show ?thesis by simp
    qed
  next
    case (Some e)
    with Cons.prems c have "r = Some e" "w' = w1" by auto
    moreover have "m # ms = [] @ m # ms" by simp
    ultimately have "\<exists>pre m' post. m # ms = pre @ m' # post
          \<and> calls w' = calls w @ deleted pre @ [(DeleteMany m', Some e)]"
      using l Some by (intro exI[of _ "[]"] exI[of _ m] exI[of _ ms]) (simp add: deleted_def)
    with \<open>r = Some e\<close> \<open>w' = w1\<close> l show ?thesis by simp
  qed
qed

lemma push_warning_simps [simp]:
  "success (push_warning e res) = success res"
  "message (push_warning e res) = message res"
  "warnings (details (push_warning e res)) = warnings (details res) @ [e]"
  "tablesProcessed (details (push_warning e res)) = tablesProcessed (details res)"
  "recordsRestored (details (push_warning e res)) = recordsRestored (details res)"
  "errors (details (push_warning e res)) = errors (details res)"
  by (simp_all add: push_warning_def)

lemma initialResults_simps [simp]:
  "success initialResults" "message initialResults = msg_done"
  "warnings (details initialResults) = []" "errors (details initialResults) = []"
  "tablesProcessed (details initialResults) = 0" "recordsRestored (details initialResults) = 0"
  by (simp_all add: initialResults_def)

lemma finalize_simps [simp]:
  "details (finalize res) = details res"
  "success (finalize res) = (success res \<and> errors (details res) = [])"
  "message (finalize res) = (if errors (details res) = [] then message res else msg_done_with_errors)"
  by (simp_all add: finalize_def)

lemma restoreData_unfold:
  "restoreData db mode ce doc w =
     (case preClear db ce w of
        (r, w1) \<Rightarrow>
          (case transaction db (restoreTables db mode (getprop doc ''data''))
                  ((case r of None \<Rightarrow> initialResults
                            | Some e \<Rightarrow> push_warning (msg_clear_failed @ e) initialResults), w1) of
             (Inl e, w') \<Rightarrow> (Inl e, w')
           | (Inr res, w') \<Rightarrow> (Inr (finalize res), w')))"
  by (auto simp: restoreData_def preClear_def clearExistingData_def Let_def
           split: prod.splits option.splits sum.splits)

lemma transaction_Inr:
  assumes "transaction db cb (res, w) = (Inr res', w')"
  shows "\<exists>w1 w2. call db TxBegin w = (None, w1) \<and> cb (res, w1) = (res', w2)
           \<and> call db TxCommit w2 = (None, w')"
  using assms
  by (auto simp: transaction_def split: prod.splits option.splits)

lemma transaction_begins:
  assumes "transaction db cb (res, w) = (out, w')"
  shows "\<exists>r w1. call db TxBegin w = (r, w1) \<and> (r \<noteq> None \<longrightarrow> w' = w1 \<and> out = Inl (Thrown (the r)))"
  using assms
  by (auto simp: transaction_def split: prod.splits option.splits)

text \<open>The shape of a run of lines 58-301 that returns a result.\<close>

lemma restoreData_Inr:
  assumes "restoreData db mode ce doc w = (Inr res, w')"
  shows "\<exists>r dlog rlog.
           calls w' = calls w @ dlog @ [(TxBegin, None)] @ rlog @ [(TxCommit, None)]
           \<and> reads w' = reads w
           \<and> (if truthy ce
              then (case r of None \<Rightarrow> dlog = deleted clearOrder
                    | Some e \<Rightarrow> (\<exists>pre m post. clearOrder = pre @ m # post
                                   \<and> dlog = deleted pre @ [(DeleteMany m, Some e)]))
              else r = None \<and> dlog = [])
           \<and> warnings (details res) = (case r of None \<Rightarrow> [] | Some e \<Rightarrow> [msg_clear_failed @ e])
           \<and> attempted rlog = length rlog
           \<and> recordsRestored (details res) = applied rlog
           \<and> tablesProcessed (details res) = length (tablesIn (getprop doc ''data''))
           \<and> applied rlog + length (errors (details res)) = length (recordsIn (getprop doc ''data''))
           \<and> (\<forall>e \<in> set (errors (details res)). \<exists>t \<in> set supported. entryOf t e)
           \<and> success res = (errors (details res) = [])
           \<and> message res = (if errors (details res) = [] then msg_done else msg_done_with_errors)"
proof -
  let ?data = "getprop doc ''data''"
  obtain r w1 where pc: "preClear db ce w = (r, w1)" by (cases "preClear db ce w")
  let ?res0 = "case r of None \<Rightarrow> initialResults
                | Some e \<Rightarrow> push_warning (msg_clear_failed @ e) initialResults"
  from assms pc obtain res1 where
    tx: "transaction db (restoreTables db mode ?data) (?res0, w1) = (Inr res1, w')"
    and fin: "res = finalize res1"
    by (auto simp: restoreData_unfold split: prod.splits sum.splits)
  from transaction_Inr[OF tx] obtain w2 w3 where
    b: "call db TxBegin w1 = (None, w2)"
    and run: "restoreTables db mode ?data (?res0, w2) = (res1, w3)"
    and c: "call db TxCommit w3 = (None, w')" by blast
  have "replayed (length (tablesIn ?data)) (length (recordsIn ?data))
          (?res0, w2) (res1, w3)"
    using restoreTables_replayed[of ?data "(?res0, w2)" db mode] run by simp
  then obtain rlog es where rp:
    "success res1 = success ?res0" "message res1 = message ?res0"
    "warnings (details res1) = warnings (details ?res0)" "reads w3 = reads w2"
    "tablesProcessed (details res1) = tablesProcessed (details ?res0) + length (tablesIn ?data)"
    "calls w3 = calls w2 @ rlog" "errors (details res1) = errors (details ?res0) @ es"
    "recordsRestored (details res1) = recordsRestored (details ?res0) + applied rlog"
    "applied rlog + length es = length (recordsIn ?data)"
    "attempted rlog = length rlog" "\<forall>e \<in> set es. \<exists>t \<in> set supported. entryOf t e"
    by (auto simp: replayed_def)
  have res0: "success ?res0" "message ?res0 = msg_done" "errors (details ?res0) = []"
    "tablesProcessed (details ?res0) = 0" "recordsRestored (details ?res0) = 0"
    "warnings (details ?res0) = (case r of None \<Rightarrow> [] | Some e \<Rightarrow> [msg_clear_failed @ e])"
    by (cases r; simp)+
  obtain dlog where dlog: "calls w1 = calls w @ dlog" "reads w1 = reads w"
    "if truthy ce
     then (case r of None \<Rightarrow> dlog = deleted clearOrder
           | Some e \<Rightarrow> (\<exists>pre m post. clearOrder = pre @ m # post
                          \<and> dlog = deleted pre @ [(DeleteMany m, Some e)]))
     else r = None \<and> dlog = []"
  proof (cases "truthy ce")
    case False
    with pc have "r = None" "w1 = w" by (auto simp: preClear_def)
    with False show ?thesis using that[of "[]"] by simp
  next
    case True
    with pc have d: "deleteAll db clearOrder w = (r, w1)" by (simp add: preClear_def)
    show ?thesis
    proof (cases r)
      case None
      with deleteAll_log[OF d] True show ?thesis using that[of "deleted clearOrder"] by simp
    next
      case (Some e)
      with deleteAll_log[OF d] obtain pre m post where
        "clearOrder = pre @ m # post" "calls w1 = calls w @ deleted pre @ [(DeleteMany m, Some e)]"
        "reads w1 = reads w" by auto
      with Some True show ?thesis using that[of "deleted pre @ [(DeleteMany m, Some e)]"] by auto
    qed
  qed
  from call_log[OF b] call_log[OF c] rp dlog
  have "calls w' = calls w @ dlog @ [(TxBegin, None)] @ rlog @ [(TxCommit, None)]"
    "reads w' = reads w" by simp_all
  with dlog(3) rp res0 fin show ?thesis
    by (intro exI[of _ r] exI[of _ dlog] exI[of _ rlog]) simp
qed

section \<open>The handler\<close>

lemma msg_nonempty:
  "msg_forbidden \<noteq> []" "msg_no_filename \<noteq> []" "msg_not_found \<noteq> []" "msg_bad_format \<noteq> []"
  by (simp_all add: msg_forbidden_def msg_no_filename_def msg_not_found_def msg_bad_format_def)

lemma msg_done_changes: "msg_done_with_errors \<noteq> msg_done"
  by (simp add: msg_done_with_errors_def msg_done_def)

lemma handler_Inr:
  assumes "handler env req w = (Inr res, w')"
  shows "\<exists>mode ce doc w1. loadBackup env req w = (Inr (mode, ce, doc), w1)
           \<and> restoreData (prisma env) mode ce doc w1 = (Inr res, w')"
  using assms
  by (auto simp: handler_def try_handler_def split: prod.splits sum.splits)

lemma loadBackup_world:
  assumes "loadBackup env req w = (out, w1)"
  shows "store w1 = store w \<and> calls w1 = calls w
         \<and> (reads w1 = reads w
            \<or> (\<exists>name. getprop (body req) ''filename'' = JStr name \<and> name \<noteq> []
                  \<and> reads w1 = reads w @ [backupPath (cwd env) name]))"
  using assms
  by (auto simp: loadBackup_def Let_def split: if_splits jsval.splits option.splits)

lemma loadBackup_Inr:
  assumes "loadBackup env req w = (Inr (mode, ce, doc), w1)"
  shows "\<not> denied (user req) \<and> truthy (getprop doc ''metadata'') \<and> truthy (getprop doc ''data'')
         \<and> mode = withDefault (getprop (body req) ''mode'') (JStr ''merge'')
         \<and> ce = withDefault (getprop (body req) ''clearExisting'') (JBool False)
         \<and> (\<exists>name content. getprop (body req) ''filename'' = JStr name \<and> name \<noteq> []
               \<and> readFile env (backupPath (cwd env) name) = Some content
               \<and> JSON_parse env content = Some doc
               \<and> w1 = w\<lparr>reads := reads w @ [backupPath (cwd env) name]\<rparr>)"
  using assms
  by (auto simp: loadBackup_def Let_def split: if_splits jsval.splits option.splits)

lemma restoreTables_cong:
  assumes "\<forall>t \<in> set restoreOrder. getprop data' t = getprop data t"
  shows "restoreTables db mode data' = restoreTables db mode data"
proof -
  have "\<And>st. (\<forall>t \<in> set ts. getprop data' t = getprop data t) \<Longrightarrow>
          fold (restoreTable db mode data') ts st = fold (restoreTable db mode data) ts st" for ts
  proof (induction ts)
    case Nil
    show ?case by simp
  next
    case (Cons t ts)
    from Cons.prems have "restoreTable db mode data' t = restoreTable db mode data t"
      by (simp add: restoreTable_def)
    with Cons show ?case by simp
  qed
  with assms show ?thesis by (auto simp: restoreTables_def)
qed

lemma length_recordsIn:
  "length (recordsIn data) = sum_list (map (\<lambda>t. length (tableRecords data t)) supported)"
  by (simp add: recordsIn_def restoreOrder_def supported_def)

section \<open>The log of a run\<close>

lemma all_writes: "attempted log = length log \<Longrightarrow> \<forall>x \<in> set log. isWrite (fst x)"
proof (induction log)
  case Nil
  show ?case by simp
next
  case (Cons x log)
  have le: "attempted log \<le> length log" unfolding attempted_def by (rule length_filter_le)
  have w: "isWrite (fst x)"
  proof (rule ccontr)
    assume "\<not> isWrite (fst x)"
    then have "attempted (x # log) = attempted log" by (cases x) (simp add: attempted_def)
    with Cons.prems have "attempted log = Suc (length log)" by simp
    with le show False by linarith
  qed
  then have "attempted (x # log) = Suc (attempted log)" by (cases x) (simp add: attempted_def)
  with Cons.prems have "attempted log = length log" by simp
  with Cons.IH w show ?case by simp
qed

lemma writes_no_deletions:
  "\<forall>x \<in> set log. isWrite (fst x) \<Longrightarrow> deletions log = [] \<and> clearFailure log = None"
proof (induction log)
  case Nil
  show ?case by (simp add: deletions_def)
next
  case (Cons x log)
  obtain c r where x: "x = (c, r)" by (cases x)
  with Cons.prems have "isWrite c" by simp
  then have "deletedModel (c, r) = [] \<and> clearFailure ((c, r) # log) = clearFailure log"
    by (cases c) auto
  with Cons x show ?case by (simp add: deletions_def)
qed

lemma deletions_append [simp]: "deletions (a @ b) = deletions a @ deletions b"
  by (simp add: deletions_def)

lemma clearFailure_append:
  "clearFailure (a @ b) = (case clearFailure a of Some e \<Rightarrow> Some e | None \<Rightarrow> clearFailure b)"
  by (induction a rule: clearFailure.induct) auto

lemma deleted_log [simp]:
  "deletions (deleted ms) = ms" "clearFailure (deleted ms) = None"
  by (induction ms) (simp_all add: deleted_def deletions_def)

lemma transaction_log:
  assumes "transaction db (restoreTables db mode data) (res, w) = (out, w')"
  shows "\<exists>rb rest. calls w' = calls w @ (TxBegin, rb) # rest
           \<and> deletions rest = [] \<and> clearFailure rest = None"
proof -
  obtain rb w1 where b: "call db TxBegin w = (rb, w1)" by (cases "call db TxBegin w")
  note lb = call_log[OF b]
  show ?thesis
  proof (cases rb)
    case (Some e)
    with assms b have "w' = w1" by (simp add: transaction_def)
    with lb show ?thesis by (intro exI[of _ rb] exI[of _ "[]"]) (simp add: deletions_def)
  next
    case None
    obtain res2 w2 where run: "restoreTables db mode data (res, w1) = (res2, w2)"
      by (cases "restoreTables db mode data (res, w1)")
    obtain rc w3 where c: "call db TxCommit w2 = (rc, w3)" by (cases "call db TxCommit w2")
    from assms b None run c have w': "w' = w3"
      by (cases rc) (simp_all add: transaction_def)
    from restoreTables_replayed[of data "(res, w1)" db mode] run
    obtain rlog where rlog: "calls w2 = calls w1 @ rlog" "attempted rlog = length rlog"
      by (auto simp: replayed_def)
    from writes_no_deletions[OF all_writes[OF rlog(2)]]
    have "deletions (rlog @ [(TxCommit, rc)]) = [] \<and> clearFailure (rlog @ [(TxCommit, rc)]) = None"
      by (simp add: clearFailure_append deletions_def)
    moreover from lb call_log[OF c] rlog w'
    have "calls w' = calls w @ (TxBegin, rb) # (rlog @ [(TxCommit, rc)])" by simp
    ultimately show ?thesis by blast
  qed
qed

lemma preClear_log:
  assumes "preClear db ce w = (r, w1)"
  shows "\<exists>dlog. calls w1 = calls w @ dlog \<and> prefix (deletions dlog) clearOrder
           \<and> clearFailure dlog = r \<and> (r = None \<longrightarrow> truthy ce \<longrightarrow> deletions dlog = clearOrder)
           \<and> (\<not> truthy ce \<longrightarrow> dlog = [])
           \<and> fst ` set dlog \<subseteq> DeleteMany ` set clearOrder"
proof (cases "truthy ce")
  case False
  with assms have "r = None" "w1 = w" by (auto simp: preClear_def)
  with False show ?thesis by (intro exI[of _ "[]"]) (simp add: deletions_def)
next
  case True
  with assms have d: "deleteAll db clearOrder w = (r, w1)" by (simp add: preClear_def)
  show ?thesis
  proof (cases r)
    case None
    with deleteAll_log[OF d] have "calls w1 = calls w @ deleted clearOrder" by simp
    moreover have "fst ` set (deleted clearOrder) \<subseteq> DeleteMany ` set clearOrder"
      by (auto simp: deleted_def)
    ultimately show ?thesis using None True
      by (intro exI[of _ "deleted clearOrder"]) simp
  next
    case (Some e)
    with deleteAll_log[OF d] obtain pre m post where
      p: "clearOrder = pre @ m # post" "calls w1 = calls w @ deleted pre @ [(DeleteMany m, Some e)]"
      by auto
    have "deletions (deleted pre @ [(DeleteMany m, Some e)]) = pre @ [m]"
      by (simp add: deletions_def[of "[_]"])
    moreover have "clearFailure (deleted pre @ [(DeleteMany m, Some e)]) = Some e"
      by (simp add: clearFailure_append)
    moreover have "clearOrder = (pre @ [m]) @ post" using p(1) by simp
    then have "prefix (pre @ [m]) clearOrder" by (rule prefixI)
    moreover have "set clearOrder = set pre \<union> {m} \<union> set post"
      using arg_cong[OF p(1), of set] by simp
    then have "fst ` set (deleted pre @ [(DeleteMany m, Some e)]) \<subseteq> DeleteMany ` set clearOrder"
      by (auto simp: deleted_def)
    ultimately show ?thesis using p(2) Some True
      by (intro exI[of _ "deleted pre @ [(DeleteMany m, Some e)]"]) simp
  qed
qed

lemma restoreData_log:
  assumes "restoreData db mode ce doc w = (out, w')"
  shows "\<exists>dlog rb rest. calls w' = calls w @ dlog @ (TxBegin, rb) # rest
           \<and> deletions rest = [] \<and> clearFailure rest = None
           \<and> prefix (deletions dlog) clearOrder
           \<and> (clearFailure dlog = None \<longrightarrow> truthy ce \<longrightarrow> deletions dlog = clearOrder)
           \<and> (\<not> truthy ce \<longrightarrow> dlog = [])
           \<and> fst ` set dlog \<subseteq> DeleteMany ` set clearOrder
           \<and> (\<forall>res. out = Inr res \<longrightarrow>
                 warnings (details res)
                   = (case clearFailure dlog of None \<Rightarrow> [] | Some e \<Rightarrow> [msg_clear_failed @ e]))"
proof -
  let ?data = "getprop doc ''data''"
  obtain r w1 where pc: "preClear db ce w = (r, w1)" by (cases "preClear db ce w")
  let ?res0 = "case r of None \<Rightarrow> initialResults
                | Some e \<Rightarrow> push_warning (msg_clear_failed @ e) initialResults"
  obtain out1 w2 where tx: "transaction db (restoreTables db mode ?data) (?res0, w1) = (out1, w2)"
    by (cases "transaction db (restoreTables db mode ?data) (?res0, w1)")
  from assms pc tx have w': "w' = w2" and out: "\<forall>res. out = Inr res \<longrightarrow> (\<exists>res1. out1 = Inr res1 \<and> res = finalize res1)"
    by (auto simp: restoreData_unfold split: sum.splits)
  from preClear_log[OF pc] obtain dlog where d0:
    "calls w1 = calls w @ dlog \<and> prefix (deletions dlog) clearOrder
           \<and> clearFailure dlog = r \<and> (r = None \<longrightarrow> truthy ce \<longrightarrow> deletions dlog = clearOrder)
           \<and> (\<not> truthy ce \<longrightarrow> dlog = [])
           \<and> fst ` set dlog \<subseteq> DeleteMany ` set clearOrder" by (rule exE)
  then have d: "calls w1 = calls w @ dlog" "prefix (deletions dlog) clearOrder" "clearFailure dlog = r"
    "r = None \<longrightarrow> truthy ce \<longrightarrow> deletions dlog = clearOrder" "\<not> truthy ce \<longrightarrow> dlog = []"
    "fst ` set dlog \<subseteq> DeleteMany ` set clearOrder" by blast+
  from transaction_log[OF tx] obtain rb rest where t0:
    "calls w2 = calls w1 @ (TxBegin, rb) # rest \<and> deletions rest = [] \<and> clearFailure rest = None"
    by (elim exE)
  then have t: "calls w2 = calls w1 @ (TxBegin, rb) # rest" "deletions rest = []"
    "clearFailure rest = None" by blast+
  have warn: "\<forall>res. out = Inr res \<longrightarrow>
      warnings (details res) = (case r of None \<Rightarrow> [] | Some e \<Rightarrow> [msg_clear_failed @ e])"
  proof (intro allI impI)
    fix res assume "out = Inr res"
    with out obtain res1 where o1: "out1 = Inr res1" "res = finalize res1" by blast
    from transaction_Inr[OF tx[unfolded o1(1)]] obtain w3 w4 where
      "restoreTables db mode ?data (?res0, w3) = (res1, w4)" by blast
    with restoreTables_replayed[of ?data "(?res0, w3)" db mode]
    have "warnings (details res1) = warnings (details ?res0)" by (simp add: replayed_def)
    with o1(2) show "warnings (details res) = (case r of None \<Rightarrow> [] | Some e \<Rightarrow> [msg_clear_failed @ e])"
      by (cases r) simp_all
  qed
  have c: "calls w' = calls w @ dlog @ (TxBegin, rb) # rest" using d(1) t(1) w' by simp
  have d4: "clearFailure dlog = None \<longrightarrow> truthy ce \<longrightarrow> deletions dlog = clearOrder"
    using d(3,4) by simp
  have warn': "\<forall>res. out = Inr res \<longrightarrow>
      warnings (details res)
        = (case clearFailure dlog of None \<Rightarrow> [] | Some e \<Rightarrow> [msg_clear_failed @ e])"
    using warn unfolding d(3) .
  show ?thesis
    apply (rule exI[of _ dlog], rule exI[of _ rb], rule exI[of _ rest])
    apply (intro conjI)
           apply (rule c)
          apply (rule t(2))
         apply (rule t(3))
        apply (rule d(2))
       apply (rule d4)
      apply (rule d(5))
     apply (rule d(6))
    apply (rule warn')
    done
qed

lemma restoreData_total:
  fixes db :: "'s client"
  assumes "\<forall>s. fst (db TxBegin s) = None \<and> fst (db TxCommit s) = None"
  shows "\<exists>res w'. restoreData db mode ce doc w = (Inr res, w')"
proof -
  have c: "\<And>w c. c = TxBegin \<or> c = TxCommit \<Longrightarrow> fst (call db c w) = None"
  proof -
    fix w :: "'s world" and c
    assume "c = TxBegin \<or> c = TxCommit"
    with assms have "fst (db c (store w)) = None" by auto
    then show "fst (call db c w) = None"
      by (cases "db c (store w)") (simp add: call_def)
  qed
  have tx: "\<exists>res w'. transaction db (restoreTables db mode (getprop doc ''data'')) st = (Inr res, w')"
    for st :: "restoreResults \<times> 's world"
  proof -
    obtain res w where st: "st = (res, w)" by (cases st)
    obtain w1 where b: "call db TxBegin w = (None, w1)"
      using c[of TxBegin w] by (cases "call db TxBegin w") auto
    obtain res2 w2 where r: "restoreTables db mode (getprop doc ''data'') (res, w1) = (res2, w2)"
      by (cases "restoreTables db mode (getprop doc ''data'') (res, w1)")
    obtain w3 where cm: "call db TxCommit w2 = (None, w3)"
      using c[of TxCommit w2] by (cases "call db TxCommit w2") auto
    from st b r cm show ?thesis by (simp add: transaction_def)
  qed
  obtain r w1 where pc: "preClear db ce w = (r, w1)" by (cases "preClear db ce w")
  from tx obtain res w' where "transaction db (restoreTables db mode (getprop doc ''data''))
      ((case r of None \<Rightarrow> initialResults
        | Some e \<Rightarrow> push_warning (msg_clear_failed @ e) initialResults), w1) = (Inr res, w')"
    by blast
  with pc have "restoreData db mode ce doc w = (Inr (finalize res), w')"
    by (simp add: restoreData_unfold)
  then show ?thesis by blast
qed

lemma handler_steps:
  assumes "loadBackup env req w = (Inr (mode, ce, doc), w1)"
    and "preClear (prisma env) ce w1 = (r, w2)"
    and "fst (transaction (prisma env) (restoreTables (prisma env) mode (getprop doc ''data''))
           ((case r of None \<Rightarrow> initialResults
             | Some e \<Rightarrow> push_warning (msg_clear_failed @ e) initialResults), w2)) = Inr res"
  shows "handler env req w =
           (Inr (finalize res),
            snd (transaction (prisma env) (restoreTables (prisma env) mode (getprop doc ''data''))
              ((case r of None \<Rightarrow> initialResults
                | Some e \<Rightarrow> push_warning (msg_clear_failed @ e) initialResults), w2)))"
proof -
  let ?t = "transaction (prisma env) (restoreTables (prisma env) mode (getprop doc ''data''))
              ((case r of None \<Rightarrow> initialResults
                | Some e \<Rightarrow> push_warning (msg_clear_failed @ e) initialResults), w2)"
  obtain w3 where t: "?t = (Inr res, w3)" using assms(3) by (cases ?t) auto
  then have "restoreData (prisma env) mode ce doc w1 = (Inr (finalize res), w3)"
    using assms(2) by (simp add: restoreData_unfold)
  with assms(1) have "handler env req w = (Inr (finalize res), w3)"
    by (simp add: handler_def try_handler_def)
  with t show ?thesis by simp
qed

subsection \<open>A sample run\<close>

lemma run_locked_eval:
  "\<not> isl (fst run_locked)"
  "errors (details (projr (fst run_locked))) = []"
  "warnings (details (projr (fst run_locked)))
     = [msg_clear_failed @ ''permission denied for table User'']"
  "tablesProcessed (details (projr (fst run_locked))) = 1"
  "deletions (newCalls blank (snd run_locked))
     = [Notification, NotificationSettings, Schedule, Vote, Song, User]"
  "clearFailure (newCalls blank (snd run_locked)) = Some ''permission denied for table User''"
proof -
  let ?w1 = "\<lparr>store = (), calls = [], reads = [''/app/backups/d.json'']\<rparr>"
  let ?w2 = "\<lparr>store = (),
              calls = deleted [Notification, NotificationSettings, Schedule, Vote, Song]
                        @ [(DeleteMany User, Some ''permission denied for table User'')],
              reads = [''/app/backups/d.json'']\<rparr>"
  let ?res0 = "push_warning (msg_clear_failed @ ''permission denied for table User'') initialResults"
  let ?t = "transaction locked_client (restoreTables locked_client (JStr ''merge'') (getprop backup_d ''data''))
              (?res0, ?w2)"
  have p: "prisma (sample_env locked_client) = locked_client" by (simp add: sample_env_def)
  have l: "loadBackup (sample_env locked_client) (sample_request ''d.json'' ''merge'' True) blank
             = (Inr (JStr ''merge'', JBool True, backup_d), ?w1)" by code_simp
  have c: "preClear locked_client (JBool True) ?w1 = (Some ''permission denied for table User'', ?w2)"
    by code_simp
  have i: "\<not> isl (fst ?t)" by code_simp
  then have t: "fst ?t = Inr (projr (fst ?t))" by simp
  have e: "errors (details (projr (fst ?t))) = []" by code_simp
  have w: "warnings (details (projr (fst ?t)))
     = [msg_clear_failed @ ''permission denied for table User'']" by code_simp
  have n: "tablesProcessed (details (projr (fst ?t))) = 1" by code_simp
  have d: "deletions (newCalls blank (snd ?t))
     = [Notification, NotificationSettings, Schedule, Vote, Song, User]" by code_simp
  have f: "clearFailure (newCalls blank (snd ?t)) = Some ''permission denied for table User''"
    by code_simp
  from handler_steps[OF l, unfolded p, OF c] t
  have r: "run_locked = (Inr (finalize (projr (fst ?t))), snd ?t)"
    by (simp add: run_locked_def)
  show "\<not> isl (fst run_locked)" by (simp only: r fst_conv sum.disc not_False_eq_True)
  show "errors (details (projr (fst run_locked))) = []"
    by (simp only: r fst_conv sum.sel finalize_simps e)
  show "warnings (details (projr (fst run_locked)))
     = [msg_clear_failed @ ''permission denied for table User'']"
    by (simp only: r fst_conv sum.sel finalize_simps w)
  show "tablesProcessed (details (projr (fst run_locked))) = 1"
    by (simp only: r fst_conv sum.sel finalize_simps n)
  show "deletions (newCalls blank (snd run_locked))
     = [Notification, NotificationSettings, Schedule, Vote, Song, User]" by (simp only: r snd_conv d)
  show "clearFailure (newCalls blank (snd run_locked)) = Some ''permission denied for table User''"
    by (simp only: r snd_conv f)
qed

section \<open>The calls of a record and the relational store\<close>

lemma readProp_ok: "\<not> nullish r \<Longrightarrow> readProp r k = Inr (getprop r k)"
  by (simp add: readProp_def)

lemma dateOrNull_ok:
  "\<not> nullish r \<Longrightarrow>
     dateOrNull r k = Inr (if truthy (getprop r k) then JDate (getprop r k) else JNull)"
  by (simp add: dateOrNull_def readProp_ok bindE_def)

lemma readProp_nullish: "nullish r \<Longrightarrow> readProp r k = Inl (Thrown (cannot_read r k))"
  by (simp add: readProp_def)

lemmas build_defs = userUpdate_def userCreate_def songData_def playTimeData_def playTimeCreate_def

lemma setFields_other: "k \<notin> fst ` set fs \<Longrightarrow> setFields fs row k = row k"
  by (induction fs arbitrary: row) auto

lemma setFields_find:
  "distinct (map fst fs) \<Longrightarrow> (k, v) \<in> set fs \<Longrightarrow>
     setFields fs row k = (if v = JUndefined then row k else Some v)"
proof (induction fs arbitrary: row)
  case Nil
  then show ?case by simp
next
  case (Cons f fs)
  obtain k' v' where f: "f = (k', v')" by (cases f)
  show ?case
  proof (cases "k' = k")
    case True
    with Cons.prems f have v: "v' = v" and notin: "k \<notin> fst ` set fs"
      by (auto simp: image_iff)
    with f True show ?thesis by (simp add: setFields_other)
  next
    case False
    with Cons.prems f have "(k, v) \<in> set fs" "distinct (map fst fs)" by auto
    from Cons.IH[OF this(2,1)] f False show ?thesis by simp
  qed
qed

lemma recordCall_nullish:
  assumes "nullish r" and "t \<in> set supported"
  shows "\<exists>e. recordCall mode t r = Some (Inl e)"
proof -
  have "\<exists>e. recordCall mode ''users'' r = Some (Inl e)"
    "\<exists>e. recordCall mode ''songs'' r = Some (Inl e)"
    "\<exists>e. recordCall mode ''playTimes'' r = Some (Inl e)"
    "\<exists>e. recordCall mode ''semesters'' r = Some (Inl e)"
    "\<exists>e. recordCall mode ''systemSettings'' r = Some (Inl e)"
    using assms(1) by (simp_all add: recordCall_def build_defs readProp_nullish bindE_def)
  moreover from assms(2) have "t = ''users'' \<or> t = ''songs'' \<or> t = ''playTimes''
    \<or> t = ''semesters'' \<or> t = ''systemSettings''"
    by (auto simp: supported_def)
  ultimately show ?thesis by blast
qed

text \<open>The call that a record of a supported collection leads to under \<^verbatim>\<open>merge\<close>.\<close>

lemma merge_call:
  assumes "collectionOf m \<in> set supported" and "\<not> nullish r"
  shows "\<exists>upd crt.
           recordCall (JStr ''merge'') (collectionOf m) r
             = Some (Inr (Upsert m [(keyField m, getprop r (keyField m))] upd crt))
           \<and> keyField m \<notin> fst ` set upd
           \<and> distinct (map fst crt)
           \<and> (keyField m, getprop r (keyField m)) \<in> set crt
           \<and> (keyField m = ''id'' \<or> ''id'' \<notin> fst ` set crt)"
  using assms
  by (cases m)
     (simp_all add: recordCall_def supported_def build_defs readProp_ok dateOrNull_ok bindE_def)

lemma rowsWith_distinct:
  "distinct (map (\<lambda>r. r k) rows) \<Longrightarrow> length (rowsWith k v rows) \<le> 1"
proof (induction rows)
  case Nil
  show ?case by (simp add: rowsWith_def)
next
  case (Cons a rows)
  show ?case
  proof (cases "a k = Some v")
    case True
    with Cons.prems have "Some v \<notin> (\<lambda>r. r k) ` set rows" by auto
    then have "rowsWith k v rows = []"
      by (auto simp: rowsWith_def filter_empty_conv intro: rev_image_eqI)
    with True show ?thesis by (simp add: rowsWith_def)
  next
    case False
    with Cons show ?thesis by (simp add: rowsWith_def)
  qed
qed

lemma rowsWith_one:
  "unique_key m s \<Longrightarrow> rowsWith (keyField m) v (tables s m) \<noteq> [] \<Longrightarrow>
     length (rowsWith (keyField m) v (tables s m)) = 1"
  using rowsWith_distinct[of "keyField m" "tables s m" v]
  by (cases "rowsWith (keyField m) v (tables s m)") (auto simp: unique_key_def)

lemma rowsWith_empty: "rowsWith k v rows = [] \<longleftrightarrow> Some v \<notin> (\<lambda>r. r k) ` set rows"
  by (auto simp: rowsWith_def filter_empty_conv intro: rev_image_eqI)

lemma db_create_result:
  assumes "setFields crt Map.empty (keyField m) = Some v" and "\<not> nullish v"
    and "keyField m = ''id'' \<or> ''id'' \<notin> fst ` set crt"
  shows "db_create m crt s =
           (if rowsWith (keyField m) v (tables s m) \<noteq> []
            then (Some (unique_failed (keyField m)), s)
            else (None,
                  s\<lparr>tables := (tables s)(m := tables s m @
                        [if keyField m = ''id'' then setFields crt Map.empty
                         else (setFields crt Map.empty)(''id'' \<mapsto> JNum (nextId s m))]),
                    nextId := (if keyField m = ''id'' then nextId s
                               else (nextId s)(m := nextId s m + 1))\<rparr>))"
proof (cases "keyField m = ''id''")
  case True
  with assms(1) have "setFields crt Map.empty ''id'' = Some v" by simp
  with assms True show ?thesis by (simp add: db_create_def Let_def)
next
  case False
  with assms(3) have "setFields crt Map.empty ''id'' = None" by (simp add: setFields_other)
  with assms False show ?thesis by (simp add: db_create_def Let_def)
qed

lemma db_upsert_existing:
  assumes "\<not> nullish v" and "rowsWith (keyField m) v (tables s m) \<noteq> []"
    and "keyField m \<notin> fst ` set upd" and "unique_key m s"
  shows "db_upsert m [(keyField m, v)] upd crt s =
           (None, s\<lparr>tables := (tables s)(m :=
              map (\<lambda>r. if r (keyField m) = Some v then setFields upd r else r) (tables s m))\<rparr>)"
proof -
  have "map (\<lambda>r. r (keyField m))
          (map (\<lambda>r. if r (keyField m) = Some v then setFields upd r else r) (tables s m))
        = map (\<lambda>r. r (keyField m)) (tables s m)"
    using assms(3) by (simp add: setFields_other)
  with assms(4) have "distinct (map (\<lambda>r. r (keyField m))
          (map (\<lambda>r. if r (keyField m) = Some v then setFields upd r else r) (tables s m)))"
    by (simp only: unique_key_def)
  with assms(1,2) show ?thesis by (simp add: db_upsert_def Let_def)
qed

lemma rowsWith_updated:
  assumes "k \<notin> fst ` set upd"
  shows "rowsWith k v' (map (\<lambda>r. if r k = Some v then setFields upd r else r) rows)
           = map (\<lambda>r. if r k = Some v then setFields upd r else r) (rowsWith k v' rows)"
  unfolding rowsWith_def
  by (induction rows) (simp_all add: setFields_other[OF assms])

text \<open>One record of a supported collection, restored under \<^verbatim>\<open>merge\<close> into the store.\<close>

lemma merge_record:
  assumes sup: "collectionOf m \<in> set supported" and uniq: "unique_key m (store w)"
    and run: "restoreRecord db_client (JStr ''merge'') (collectionOf m) r w = (out, w')"
  shows "(out = Restored \<longleftrightarrow> \<not> nullish r \<and> \<not> nullish (getprop r (keyField m)))
         \<and> (out = Restored \<longrightarrow>
               length (rowsWith (keyField m) (getprop r (keyField m)) (tables (store w') m)) = 1
               \<and> unique_key m (store w')
               \<and> length (tables (store w') m)
                   = (if rowsWith (keyField m) (getprop r (keyField m)) (tables (store w) m) = []
                      then Suc (length (tables (store w) m)) else length (tables (store w) m)))"
proof (cases "nullish r")
  case True
  from recordCall_nullish[OF True sup] obtain e where
    "recordCall (JStr ''merge'') (collectionOf m) r = Some (Inl e)" by blast
  with run True show ?thesis by (auto simp: restoreRecord_def)
next
  case False
  let ?k = "keyField m" and ?v = "getprop r (keyField m)"
  from merge_call[OF sup False] obtain upd crt where c:
    "recordCall (JStr ''merge'') (collectionOf m) r = Some (Inr (Upsert m [(?k, ?v)] upd crt))"
    "?k \<notin> fst ` set upd" "distinct (map fst crt)" "(?k, ?v) \<in> set crt"
    "?k = ''id'' \<or> ''id'' \<notin> fst ` set crt" by blast
  obtain x s' where d: "db_upsert m [(?k, ?v)] upd crt (store w) = (x, s')"
    by (cases "db_upsert m [(?k, ?v)] upd crt (store w)")
  with run c(1) have out: "out = (case x of None \<Rightarrow> Restored | Some e \<Rightarrow> Failed e)"
    and w': "store w' = s'"
    by (auto simp: restoreRecord_def call_def split: option.splits)
  show ?thesis
  proof (cases "nullish ?v")
    case True
    with d have "x \<noteq> None" by (auto simp: db_upsert_def)
    with out True False show ?thesis by (auto split: option.splits)
  next
    case nn: False
    then have "?v \<noteq> JUndefined" by auto
    with setFields_find[OF c(3,4)] have key: "setFields crt Map.empty ?k = Some ?v" by simp
    show ?thesis
    proof (cases "rowsWith ?k ?v (tables (store w) m) = []")
      case True
      with nn have "db_upsert m [(?k, ?v)] upd crt (store w) = db_create m crt (store w)"
        by (simp add: db_upsert_def)
      with d db_create_result[OF key nn c(5), of "store w"] True
      have x: "x = None" and s': "tables s' m = tables (store w) m @
                        [if ?k = ''id'' then setFields crt Map.empty
                         else (setFields crt Map.empty)(''id'' \<mapsto> JNum (nextId (store w) m))]"
        by auto
      let ?row = "if ?k = ''id'' then setFields crt Map.empty
                         else (setFields crt Map.empty)(''id'' \<mapsto> JNum (nextId (store w) m))"
      have rk: "?row ?k = Some ?v" using key by auto
      from True have notin: "Some ?v \<notin> (\<lambda>r. r ?k) ` set (tables (store w) m)"
        by (simp add: rowsWith_empty)
      have "rowsWith ?k ?v (tables s' m) = [?row]"
        unfolding s' using True rk by (simp add: rowsWith_def)
      moreover have "unique_key m s'"
        using uniq notin rk unfolding unique_key_def s' by auto
      ultimately show ?thesis using x out w' s' True nn False by simp
    next
      case ex: False
      from db_upsert_existing[OF nn ex c(2) uniq, of crt] d
      have x: "x = None" and s': "tables s' m =
              map (\<lambda>r. if r ?k = Some ?v then setFields upd r else r) (tables (store w) m)"
        by auto
      have keys: "map (\<lambda>r. r ?k) (tables s' m) = map (\<lambda>r. r ?k) (tables (store w) m)"
        unfolding s' using c(2) by (simp add: setFields_other)
      have "length (rowsWith ?k ?v (tables s' m)) = length (rowsWith ?k ?v (tables (store w) m))"
        unfolding s' by (simp add: rowsWith_updated[OF c(2)])
      with rowsWith_one[OF uniq ex] have "length (rowsWith ?k ?v (tables s' m)) = 1" by simp
      moreover have "unique_key m s'" using uniq keys by (simp add: unique_key_def)
      moreover have "length (tables s' m) = length (tables (store w) m)" unfolding s' by simp
      ultimately show ?thesis using x out w' ex nn False by simp
    qed
  qed
qed

lemma users_merge_call:
  assumes "\<not> nullish r"
  shows "recordCall (JStr ''merge'') ''users'' r =
           Some (Inr (Upsert User [(''username'', getprop r ''username'')]
             [(''name'', getprop r ''name''),
              (''grade'', getprop r ''grade''),
              (''class'', getprop r ''class''),
              (''role'', getprop r ''role''),
              (''lastLogin'', if truthy (getprop r ''lastLogin'')
                              then JDate (getprop r ''lastLogin'') else JNull),
              (''lastLoginIp'', getprop r ''lastLoginIp''),
              (''passwordChangedAt'', if truthy (getprop r ''passwordChangedAt'')
                              then JDate (getprop r ''passwordChangedAt'') else JNull)]
             [(''username'', getprop r ''username''),
              (''name'', getprop r ''name''),
              (''password'', getprop r ''password''),
              (''grade'', getprop r ''grade''),
              (''class'', getprop r ''class''),
              (''role'', getprop r ''role''),
              (''lastLogin'', if truthy (getprop r ''lastLogin'')
                              then JDate (getprop r ''lastLogin'') else JNull),
              (''lastLoginIp'', getprop r ''lastLoginIp''),
              (''passwordChangedAt'', if truthy (getprop r ''passwordChangedAt'')
                              then JDate (getprop r ''passwordChangedAt'') else JNull)]))"
  using assms
  by (simp add: recordCall_def build_defs readProp_ok dateOrNull_ok bindE_def)

text \<open>The call that a record of a supported collection leads to when the mode is not \<^verbatim>\<open>merge\<close>.\<close>

lemma replace_call:
  assumes "collectionOf m \<in> set supported" and "\<not> nullish r" and "mode \<noteq> JStr ''merge''"
  shows "\<exists>d. recordCall mode (collectionOf m) r = Some (Inr (Create m d))
           \<and> distinct (map fst d) \<and> ''id'' \<notin> fst ` set d
           \<and> (keyField m \<noteq> ''id'' \<longrightarrow> (keyField m, getprop r (keyField m)) \<in> set d)
           \<and> (m = Song \<longrightarrow> (''preferredPlayTimeId'', getprop r ''preferredPlayTimeId'') \<in> set d
                            \<and> (''requesterId'', getprop r ''requesterId'') \<in> set d)"
  using assms
  by (cases m)
     (simp_all add: recordCall_def supported_def build_defs readProp_ok dateOrNull_ok bindE_def)

lemma replace_call_ignores_id:
  assumes "collectionOf m \<in> set supported" and "\<not> nullish r" and "\<not> nullish r'"
    and "mode \<noteq> JStr ''merge''" and "\<forall>k. k \<noteq> ''id'' \<longrightarrow> getprop r' k = getprop r k"
  shows "recordCall mode (collectionOf m) r' = recordCall mode (collectionOf m) r"
  using assms
  by (cases m)
     (simp_all add: recordCall_def supported_def build_defs readProp_ok dateOrNull_ok bindE_def)

lemma db_create_generated:
  assumes "''id'' \<notin> fst ` set d" and "keyField m = ''id''"
  shows "db_create m d s =
           (if rowsWith ''id'' (JNum (nextId s m)) (tables s m) \<noteq> []
            then (Some (unique_failed ''id''), s)
            else (None,
                  s\<lparr>tables := (tables s)(m := tables s m @
                        [(setFields d Map.empty)(''id'' \<mapsto> JNum (nextId s m))]),
                    nextId := (nextId s)(m := nextId s m + 1)\<rparr>))"
proof -
  from assms(1) have "setFields d Map.empty ''id'' = None" by (simp add: setFields_other)
  with assms(2) show ?thesis by (simp add: db_create_def Let_def)
qed

lemma grows_refl [simp]: "grows s s"
  by (simp add: grows_def)

lemma grows_trans: "grows s s' \<Longrightarrow> grows s' s'' \<Longrightarrow> grows s s''"
  unfolding grows_def by (meson prefix_order.order_trans)

lemma grows_key:
  assumes "grows s s'" and "rowsWith k v (tables s m) \<noteq> []"
  shows "rowsWith k v (tables s' m) \<noteq> []"
proof -
  from assms(1) obtain added where "tables s' m = tables s m @ added"
    unfolding grows_def prefix_def by blast
  with assms(2) show ?thesis by (simp add: rowsWith_def)
qed

lemma db_create_grows: "db_create m d s = (x, s') \<Longrightarrow> grows s s'"
  by (auto simp: db_create_def Let_def grows_def split: option.splits if_splits)

lemma restoreRecord_grows:
  assumes "mode \<noteq> JStr ''merge''" and "restoreRecord db_client mode t r w = (out, w')"
  shows "grows (store w) (store w')"
proof (cases "recordCall mode t r")
  case None
  with assms(2) show ?thesis by (simp add: restoreRecord_def)
next
  case (Some a)
  show ?thesis
  proof (cases a)
    case (Inl e)
    with Some assms(2) show ?thesis by (simp add: restoreRecord_def)
  next
    case (Inr c)
    from Some have "recordCall mode t r \<noteq> None" by simp
    then have sup: "t \<in> set supported" by (simp add: recordCall_None)
    then obtain m where m: "t = collectionOf m"
      by (auto simp: supported_def intro: collectionOf.simps[symmetric])
    have nn: "\<not> nullish r"
    proof
      assume "nullish r"
      from recordCall_nullish[OF this sup, of mode] Some Inr show False by simp
    qed
    from replace_call[OF sup[unfolded m] nn assms(1)] Some Inr m obtain d where
      c: "c = Create m d" by auto
    obtain x s' where d: "db_create m d (store w) = (x, s')" by (cases "db_create m d (store w)")
    with assms(2) Some Inr c have "store w' = s'"
      by (auto simp: restoreRecord_def call_def split: option.splits)
    with db_create_grows[OF d] show ?thesis by simp
  qed
qed

lemma restoreRecords_grows:
  assumes "mode \<noteq> JStr ''merge''"
  shows "restoreRecords db_client mode t rs (n, res, w) = (n', res', w')
           \<Longrightarrow> grows (store w) (store w')"
proof (induction rs arbitrary: n res w)
  case Nil
  then show ?case by simp
next
  case (Cons r rs)
  obtain out w1 where step: "restoreRecord db_client mode t r w = (out, w1)"
    by (cases "restoreRecord db_client mode t r w")
  note g = restoreRecord_grows[OF assms step]
  from Cons.prems step obtain n1 res1 where
    "restoreRecords db_client mode t rs (n1, res1, w1) = (n', res', w')"
    by (cases out) auto
  from grows_trans[OF g Cons.IH[OF this]] show ?case .
qed

lemma restoreTable_grows:
  assumes "mode \<noteq> JStr ''merge''" and "restoreTable db_client mode data t (res, w) = (res', w')"
  shows "grows (store w) (store w')"
proof (cases "\<exists>r rs. getprop data t = JArr (r # rs)")
  case False
  then have "\<And>xs. getprop data t = JArr xs \<Longrightarrow> xs = []" by (metis list.exhaust)
  then have "restoreTable db_client mode data t (res, w) = (res, w)"
    by (cases "getprop data t") (auto simp: restoreTable_def Let_def)
  with assms(2) show ?thesis by simp
next
  case True
  then obtain r rs where arr: "getprop data t = JArr (r # rs)" by blast
  obtain n1 res1 w1 where run: "restoreRecords db_client mode t (r # rs) (0, res, w) = (n1, res1, w1)"
    by (cases "restoreRecords db_client mode t (r # rs) (0, res, w)")
  with arr assms(2) have "w' = w1"
    by (simp add: restoreTable_def Let_def del: restoreRecords.simps)
  with restoreRecords_grows[OF assms(1) run] show ?thesis by simp
qed

text \<open>
  A record of \<^verbatim>\<open>users\<close> or \<^verbatim>\<open>semesters\<close> whose key is in the store: the insert
  fails, one entry is pushed, the count stays, and the loop goes on with the next record.
\<close>

lemma duplicate_step:
  assumes m: "m = User \<or> m = Semester" and mode: "mode \<noteq> JStr ''merge''"
    and r: "\<not> nullish r" "\<not> nullish (getprop r (keyField m))"
    and ex: "rowsWith (keyField m) (getprop r (keyField m)) (tables (store w) m) \<noteq> []"
  shows "\<exists>d. restoreRecord db_client mode (collectionOf m) r w
               = (Failed (unique_failed (keyField m)),
                  w\<lparr>calls := calls w @ [(Create m d, Some (unique_failed (keyField m)))]\<rparr>)"
proof -
  from m have sup: "collectionOf m \<in> set supported" and k: "keyField m \<noteq> ''id''"
    by (auto simp: supported_def)
  from replace_call[OF sup r(1) mode] obtain d where
    c: "recordCall mode (collectionOf m) r = Some (Inr (Create m d))"
    and d: "distinct (map fst d)" "''id'' \<notin> fst ` set d"
      "keyField m \<noteq> ''id'' \<longrightarrow> (keyField m, getprop r (keyField m)) \<in> set d"
    by (elim exE conjE)
  from r(2) have "getprop r (keyField m) \<noteq> JUndefined" by auto
  with setFields_find[OF d(1), of "keyField m" "getprop r (keyField m)" Map.empty] d(3) k
  have key: "setFields d Map.empty (keyField m) = Some (getprop r (keyField m))" by simp
  from d(2) have noid: "keyField m = ''id'' \<or> ''id'' \<notin> fst ` set d" by simp
  from db_create_result[OF key r(2) noid, of "store w"] ex
  have "db_create m d (store w) = (Some (unique_failed (keyField m)), store w)" by simp
  with c have "restoreRecord db_client mode (collectionOf m) r w
               = (Failed (unique_failed (keyField m)),
                  w\<lparr>calls := calls w @ [(Create m d, Some (unique_failed (keyField m)))]\<rparr>)"
    by (simp add: restoreRecord_def call_def)
  then show ?thesis by blast
qed

lemma duplicate_in_records:
  assumes m: "m = User \<or> m = Semester" and mode: "mode \<noteq> JStr ''merge''"
    and r: "\<not> nullish r" "\<not> nullish (getprop r (keyField m))"
  shows "r \<in> set rs \<Longrightarrow>
         rowsWith (keyField m) (getprop r (keyField m)) (tables (store w) m) \<noteq> [] \<Longrightarrow>
         restoreRecords db_client mode (collectionOf m) rs (n, res, w) = (n', res', w') \<Longrightarrow>
         collectionOf m @ '': '' @ unique_failed (keyField m) \<in> set (errors (details res'))"
proof (induction rs arbitrary: n res w)
  case Nil
  then show ?case by simp
next
  case (Cons a rs)
  let ?e = "collectionOf m @ '': '' @ unique_failed (keyField m)"
  show ?case
  proof (cases "a = r")
    case True
    from duplicate_step[OF m mode r Cons.prems(2)] obtain d where
      "restoreRecord db_client mode (collectionOf m) r w
               = (Failed (unique_failed (keyField m)),
                  w\<lparr>calls := calls w @ [(Create m d, Some (unique_failed (keyField m)))]\<rparr>)"
      by blast
    with Cons.prems(3) True have
      "restoreRecords db_client mode (collectionOf m) rs
         (n, push_error ?e res,
          w\<lparr>calls := calls w @ [(Create m d, Some (unique_failed (keyField m)))]\<rparr>) = (n', res', w')"
      by simp
    from restoreRecords_effect[OF this] obtain es where
      "errors (details res') = errors (details (push_error ?e res)) @ es" by blast
    then show ?thesis by simp
  next
    case False
    with Cons.prems(1) have in_rs: "r \<in> set rs" by simp
    obtain out w1 where step: "restoreRecord db_client mode (collectionOf m) a w = (out, w1)"
      by (cases "restoreRecord db_client mode (collectionOf m) a w")
    from grows_key[OF restoreRecord_grows[OF mode step] Cons.prems(2)]
    have ex1: "rowsWith (keyField m) (getprop r (keyField m)) (tables (store w1) m) \<noteq> []" .
    from Cons.prems(3) step obtain n1 res1 where
      "restoreRecords db_client mode (collectionOf m) rs (n1, res1, w1) = (n', res', w')"
      by (cases out) auto
    from Cons.IH[OF in_rs ex1 this] show ?thesis .
  qed
qed

lemma duplicate_in_table:
  assumes m: "m = User \<or> m = Semester" and mode: "mode \<noteq> JStr ''merge''"
    and r: "\<not> nullish r" "\<not> nullish (getprop r (keyField m))"
    and inr: "r \<in> set (tableRecords data (collectionOf m))"
    and ex: "rowsWith (keyField m) (getprop r (keyField m)) (tables (store w) m) \<noteq> []"
    and run: "restoreTable db_client mode data (collectionOf m) (res, w) = (res', w')"
  shows "collectionOf m @ '': '' @ unique_failed (keyField m) \<in> set (errors (details res'))"
proof -
  from inr obtain ys where ys: "getprop data (collectionOf m) = JArr ys" "r \<in> set ys"
    by (cases "getprop data (collectionOf m)") (auto simp: tableRecords_def)
  then obtain x xs where "ys = x # xs" by (cases ys) auto
  with ys have arr: "getprop data (collectionOf m) = JArr (x # xs)"
    and inr': "r \<in> set (x # xs)" by simp_all
  obtain n1 res1 w1 where
    rr: "restoreRecords db_client mode (collectionOf m) (x # xs) (0, res, w) = (n1, res1, w1)"
    by (cases "restoreRecords db_client mode (collectionOf m) (x # xs) (0, res, w)")
  from arr rr run have "errors (details res') = errors (details res1)"
    by (auto simp: restoreTable_def Let_def simp del: restoreRecords.simps)
  with duplicate_in_records[OF m mode r inr' ex rr] show ?thesis by simp
qed

lemma duplicate_in_fold:
  assumes m: "m = User \<or> m = Semester" and mode: "mode \<noteq> JStr ''merge''"
    and r: "\<not> nullish r" "\<not> nullish (getprop r (keyField m))"
    and inr: "r \<in> set (tableRecords data (collectionOf m))"
  shows "collectionOf m \<in> set ts \<Longrightarrow>
         rowsWith (keyField m) (getprop r (keyField m)) (tables (store w) m) \<noteq> [] \<Longrightarrow>
         fold (restoreTable db_client mode data) ts (res, w) = (res', w') \<Longrightarrow>
         collectionOf m @ '': '' @ unique_failed (keyField m) \<in> set (errors (details res'))"
proof (induction ts arbitrary: res w)
  case Nil
  then show ?case by simp
next
  case (Cons a ts)
  obtain res1 w1 where step: "restoreTable db_client mode data a (res, w) = (res1, w1)"
    by (cases "restoreTable db_client mode data a (res, w)")
  with Cons.prems(3) have rest: "fold (restoreTable db_client mode data) ts (res1, w1) = (res', w')"
    by simp
  show ?case
  proof (cases "a = collectionOf m")
    case True
    from duplicate_in_table[OF m mode r inr Cons.prems(2) step[unfolded True]]
    have e: "collectionOf m @ '': '' @ unique_failed (keyField m) \<in> set (errors (details res1))" .
    from fold_restoreTable_replayed[of data ts "(res1, w1)" db_client mode] rest
    obtain es where "errors (details res') = errors (details res1) @ es"
      by (auto simp: replayed_def)
    with e show ?thesis by simp
  next
    case False
    with Cons.prems(1) have "collectionOf m \<in> set ts" by simp
    moreover from grows_key[OF restoreTable_grows[OF mode step] Cons.prems(2)]
    have "rowsWith (keyField m) (getprop r (keyField m)) (tables (store w1) m) \<noteq> []" .
    ultimately show ?thesis using Cons.IH rest by blast
  qed
qed

section \<open>Paths\<close>

lemma split_slash_nonempty [simp]: "split_slash s \<noteq> []"
  by (induction s) (auto split: list.splits)

lemma split_slash_plain: "CHR ''/'' \<notin> set s \<Longrightarrow> split_slash s = [s]"
  by (induction s) auto

lemma split_slash_append:
  "CHR ''/'' \<notin> set a \<Longrightarrow> split_slash (a @ CHR ''/'' # b) = a # split_slash b"
  by (induction a) auto

lemma split_slash_join:
  "segs \<noteq> [] \<Longrightarrow> \<forall>s \<in> set segs. CHR ''/'' \<notin> set s \<Longrightarrow> split_slash (join_slash segs) = segs"
proof (induction segs rule: join_slash.induct)
  case 1
  then show ?case by simp
next
  case (2 s)
  then show ?case by (simp add: split_slash_plain)
next
  case (3 s t ss)
  then show ?case by (simp add: split_slash_append)
qed

lemma split_slash_join_append:
  assumes "segs \<noteq> []" and "\<forall>s \<in> set segs. CHR ''/'' \<notin> set s"
  shows "split_slash (join_slash segs @ CHR ''/'' # b) = segs @ split_slash b"
  using assms
proof (induction segs rule: join_slash.induct)
  case 1
  then show ?case by simp
next
  case (2 s)
  then show ?case by (simp add: split_slash_append)
next
  case (3 s t ss)
  then show ?case by (simp add: split_slash_append)
qed

lemma normalizeSegments_no_dotdot:
  "''..'' \<notin> set segs \<Longrightarrow>
     normalizeSegments a acc segs = rev acc @ filter (\<lambda>s. s \<noteq> [] \<and> s \<noteq> ''.'') segs"
  by (induction segs arbitrary: acc) auto

lemma join_slash_append:
  "xs \<noteq> [] \<Longrightarrow> ys \<noteq> [] \<Longrightarrow> join_slash (xs @ ys) = join_slash xs @ ''/'' @ join_slash ys"
proof (induction xs rule: join_slash.induct)
  case 1
  then show ?case by simp
next
  case (2 s)
  then show ?case by (cases ys) auto
next
  case (3 s t ss)
  then show ?case by simp
qed

lemma join_slash_nonempty: "xs \<noteq> [] \<Longrightarrow> last xs \<noteq> [] \<Longrightarrow> join_slash xs \<noteq> []"
  by (induction xs rule: join_slash.induct) auto

lemma plain_filter:
  "list_all plain segs \<Longrightarrow> filter (\<lambda>s. s \<noteq> [] \<and> s \<noteq> ''.'') segs = segs"
  by (induction segs) (auto simp: plain_def)

lemma normalize_absolute:
  assumes "list_all plain A" and "A \<noteq> []" and "''..'' \<notin> set (split_slash b)" and "b \<noteq> []"
  shows "normalize_path (''/'' @ join_slash A @ ''/'' @ b) =
           ''/'' @ join_slash (A @ filter (\<lambda>s. s \<noteq> [] \<and> s \<noteq> ''.'') (split_slash b))
             @ (if last b = CHR ''/'' then ''/'' else [])"
proof -
  let ?p = "''/'' @ join_slash A @ ''/'' @ b"
  let ?R = "filter (\<lambda>s. s \<noteq> [] \<and> s \<noteq> ''.'') (split_slash b)"
  from assms(1) have noslash: "\<forall>s \<in> set A. CHR ''/'' \<notin> set s"
    and nodd: "''..'' \<notin> set A"
    by (auto simp: list_all_iff plain_def)
  have sp: "split_slash ?p = [] # A @ split_slash b"
    using split_slash_join_append[OF assms(2) noslash, of b] by simp
  have "normalizeSegments False [] ([] # A @ split_slash b)
          = filter (\<lambda>s. s \<noteq> [] \<and> s \<noteq> ''.'') ([] # A @ split_slash b)"
    using nodd assms(3) by (subst normalizeSegments_no_dotdot) auto
  also have "\<dots> = A @ ?R" using plain_filter[OF assms(1)] by simp
  finally have ns: "normalizeSegments False [] (split_slash ?p) = A @ ?R" by (simp only: sp)
  have "A @ ?R \<noteq> []" using assms(2) by simp
  then have "last (A @ ?R) \<in> set (A @ ?R)" by (rule last_in_set)
  moreover have "\<forall>s \<in> set (A @ ?R). s \<noteq> []"
    using assms(1) by (auto simp: list_all_iff plain_def)
  ultimately have "last (A @ ?R) \<noteq> []" by blast
  with assms(2) have q: "join_slash (A @ ?R) \<noteq> []" by (intro join_slash_nonempty) simp_all
  have hd: "hd ?p = CHR ''/''" by simp
  have lst: "last ?p = last b" using assms(4) by simp
  have ne: "?p \<noteq> []" by simp
  show ?thesis
    unfolding normalize_path_def Let_def using ne
    by (simp only: hd lst ns q if_False if_True simp_thms append_Nil)
qed

lemma backups_dir:
  assumes "list_all plain segs"
  shows "path_join [''/'' @ join_slash segs, ''backups''] = ''/'' @ join_slash (segs @ [''backups''])"
proof (cases "segs = []")
  case True
  have "normalize_path ''//backups'' = ''/backups''" by code_simp
  with True show ?thesis by (simp add: path_join_def)
next
  case False
  have b: "''..'' \<notin> set (split_slash ''backups'')" by code_simp
  have f: "filter (\<lambda>s. s \<noteq> [] \<and> s \<noteq> ''.'') (split_slash ''backups'') = [''backups'']" by code_simp
  from normalize_absolute[OF assms False b] f
  have "normalize_path (''/'' @ join_slash segs @ ''/'' @ ''backups'') = ''/'' @ join_slash (segs @ [''backups''])"
    by simp
  then show ?thesis by (simp add: path_join_def)
qed

lemma backupPath_inside:
  assumes "list_all plain segs" and "name \<noteq> []" and "''..'' \<notin> set (split_slash name)"
  shows "inside (path_join [''/'' @ join_slash segs, ''backups''])
           (backupPath (''/'' @ join_slash segs) name)"
proof -
  let ?A = "segs @ [''backups'']"
  let ?dir = "''/'' @ join_slash ?A"
  let ?R = "filter (\<lambda>s. s \<noteq> [] \<and> s \<noteq> ''.'') (split_slash name)"
  let ?t = "if last name = CHR ''/'' then ''/'' else []"
  have pl: "list_all plain ?A" using assms(1) by (simp add: plain_def)
  have d: "path_join [''/'' @ join_slash segs, ''backups''] = ?dir" by (rule backups_dir[OF assms(1)])
  have "backupPath (''/'' @ join_slash segs) name = path_join [?dir, name]"
    by (simp only: backupPath_def d)
  also have "\<dots> = normalize_path (?dir @ ''/'' @ name)"
    using assms(2) by (simp add: path_join_def)
  also have "\<dots> = ''/'' @ join_slash (?A @ ?R) @ ?t"
    using normalize_absolute[OF pl _ assms(3,2)] by simp
  finally have p: "backupPath (''/'' @ join_slash segs) name = ''/'' @ join_slash (?A @ ?R) @ ?t" .
  show ?thesis
  proof (cases "?R = []")
    case True
    then have "backupPath (''/'' @ join_slash segs) name = ?dir @ ?t" using p by simp
    then show ?thesis unfolding d inside_def by (auto simp: prefix_def)
  next
    case False
    then have "join_slash (?A @ ?R) = join_slash ?A @ ''/'' @ join_slash ?R"
      by (intro join_slash_append) simp_all
    with p have "backupPath (''/'' @ join_slash segs) name
                  = (?dir @ ''/'') @ (join_slash ?R @ ?t)" by simp
    then have "prefix (?dir @ ''/'') (backupPath (''/'' @ join_slash segs) name)"
      by (rule prefixI)
    then show ?thesis unfolding d inside_def by simp
  qed
qed

lemma restoreData_reads:
  assumes "restoreData db mode ce doc w = (out, w')"
  shows "reads w' = reads w"
proof -
  obtain r w1 where pc: "preClear db ce w = (r, w1)" by (cases "preClear db ce w")
  have r1: "reads w1 = reads w"
  proof (cases "truthy ce")
    case True
    with pc have "deleteAll db clearOrder w = (r, w1)" by (simp add: preClear_def)
    from deleteAll_log[OF this] show ?thesis by simp
  next
    case False
    with pc show ?thesis by (simp add: preClear_def)
  qed
  let ?res0 = "case r of None \<Rightarrow> initialResults
                | Some e \<Rightarrow> push_warning (msg_clear_failed @ e) initialResults"
  let ?cb = "restoreTables db mode (getprop doc ''data'')"
  obtain out1 w2 where tx: "transaction db ?cb (?res0, w1) = (out1, w2)"
    by (cases "transaction db ?cb (?res0, w1)")
  with assms pc have w': "w' = w2" by (auto simp: restoreData_unfold split: sum.splits)
  obtain rb wb where b: "call db TxBegin w1 = (rb, wb)" by (cases "call db TxBegin w1")
  have "reads w2 = reads w1"
  proof (cases rb)
    case (Some e)
    with tx b have "w2 = wb" by (simp add: transaction_def)
    with call_log[OF b] show ?thesis by simp
  next
    case None
    obtain res2 wr where run: "?cb (?res0, wb) = (res2, wr)" by (cases "?cb (?res0, wb)")
    obtain rc wc where c: "call db TxCommit wr = (rc, wc)" by (cases "call db TxCommit wr")
    from tx b None run c have "w2 = wc" by (cases rc) (simp_all add: transaction_def)
    moreover from restoreTables_replayed[of "getprop doc ''data''" "(?res0, wb)" db mode] run
    have "reads wr = reads wb" by (simp add: replayed_def)
    ultimately show ?thesis using call_log[OF b] call_log[OF c] by simp
  qed
  with r1 w' show ?thesis by simp
qed

subsection \<open>The shape of the pre-clear in the log\<close>

lemma restoreData_shape:
  assumes "restoreData db mode ce doc w = (out, w')" and "truthy ce"
  shows "\<exists>rb rest. deletions rest = [] \<and> clearFailure rest = None
           \<and> (calls w' = calls w @ deleted clearOrder @ (TxBegin, rb) # rest
              \<or> (\<exists>pre m post e. clearOrder = pre @ m # post
                    \<and> calls w' = calls w @ deleted pre @ (DeleteMany m, Some e) # (TxBegin, rb) # rest))"
proof -
  let ?data = "getprop doc ''data''"
  obtain r w1 where pc: "preClear db ce w = (r, w1)" by (cases "preClear db ce w")
  let ?res0 = "case r of None \<Rightarrow> initialResults
                | Some e \<Rightarrow> push_warning (msg_clear_failed @ e) initialResults"
  obtain out1 w2 where tx: "transaction db (restoreTables db mode ?data) (?res0, w1) = (out1, w2)"
    by (cases "transaction db (restoreTables db mode ?data) (?res0, w1)")
  from assms(1) pc tx have w': "w' = w2"
    by (auto simp: restoreData_unfold split: sum.splits)
  from pc assms(2) have d: "deleteAll db clearOrder w = (r, w1)" by (simp add: preClear_def)
  from transaction_log[OF tx] obtain rb rest where t0:
    "calls w2 = calls w1 @ (TxBegin, rb) # rest \<and> deletions rest = [] \<and> clearFailure rest = None"
    by (elim exE)
  then have t: "calls w2 = calls w1 @ (TxBegin, rb) # rest" "deletions rest = []"
    "clearFailure rest = None" by blast+
  have "calls w' = calls w @ deleted clearOrder @ (TxBegin, rb) # rest
        \<or> (\<exists>pre m post e. clearOrder = pre @ m # post
              \<and> calls w' = calls w @ deleted pre @ (DeleteMany m, Some e) # (TxBegin, rb) # rest)"
  proof (cases r)
    case None
    with deleteAll_log[OF d] have "calls w1 = calls w @ deleted clearOrder" by simp
    with t(1) w' show ?thesis by simp
  next
    case (Some e)
    with deleteAll_log[OF d] obtain pre m post where
      p: "clearOrder = pre @ m # post" "calls w1 = calls w @ deleted pre @ [(DeleteMany m, Some e)]"
      by auto
    from p(2) t(1) w'
    have "calls w' = calls w @ deleted pre @ (DeleteMany m, Some e) # (TxBegin, rb) # rest" by simp
    with p(1) show ?thesis by blast
  qed
  with t(2,3) show ?thesis by blast
qed

lemma run_locked_log:
  "take 7 (newCalls blank (snd run_locked))
     = deleted [Notification, NotificationSettings, Schedule, Vote, Song]
         @ [(DeleteMany User, Some ''permission denied for table User''), (TxBegin, None)]"
  "deletions (drop 7 (newCalls blank (snd run_locked))) = []"
proof -
  let ?w1 = "\<lparr>store = (), calls = [], reads = [''/app/backups/d.json'']\<rparr>"
  let ?w2 = "\<lparr>store = (),
              calls = deleted [Notification, NotificationSettings, Schedule, Vote, Song]
                        @ [(DeleteMany User, Some ''permission denied for table User'')],
              reads = [''/app/backups/d.json'']\<rparr>"
  let ?res0 = "push_warning (msg_clear_failed @ ''permission denied for table User'') initialResults"
  let ?t = "transaction locked_client (restoreTables locked_client (JStr ''merge'') (getprop backup_d ''data''))
              (?res0, ?w2)"
  have p: "prisma (sample_env locked_client) = locked_client" by (simp add: sample_env_def)
  have l: "loadBackup (sample_env locked_client) (sample_request ''d.json'' ''merge'' True) blank
             = (Inr (JStr ''merge'', JBool True, backup_d), ?w1)" by code_simp
  have c: "preClear locked_client (JBool True) ?w1 = (Some ''permission denied for table User'', ?w2)"
    by code_simp
  have i: "\<not> isl (fst ?t)" by code_simp
  then have t: "fst ?t = Inr (projr (fst ?t))" by simp
  have a: "take 7 (newCalls blank (snd ?t))
     = deleted [Notification, NotificationSettings, Schedule, Vote, Song]
         @ [(DeleteMany User, Some ''permission denied for table User''), (TxBegin, None)]"
    by code_simp
  have b: "deletions (drop 7 (newCalls blank (snd ?t))) = []" by code_simp
  from handler_steps[OF l, unfolded p, OF c] t
  have r: "run_locked = (Inr (finalize (projr (fst ?t))), snd ?t)"
    by (simp add: run_locked_def)
  show "take 7 (newCalls blank (snd run_locked))
     = deleted [Notification, NotificationSettings, Schedule, Vote, Song]
         @ [(DeleteMany User, Some ''permission denied for table User''), (TxBegin, None)]"
    by (simp only: r snd_conv a)
  show "deletions (drop 7 (newCalls blank (snd run_locked))) = []"
    by (simp only: r snd_conv b)
qed

section \<open>The claims\<close>

subsection \<open>C8: the role check comes first\<close>

text \<open>
  C8. For every request whose caller is absent (\<^verbatim>\<open>event.context.user\<close> is falsy) or
  whose role is neither \<^verbatim>\<open>ADMIN\<close> nor \<^verbatim>\<open>SUPER_ADMIN\<close>, the handler throws the error
  403 and leaves the world as it was: no file has been read and no call has been made on
  the store. This holds for every file system, parser and store.
\<close>

theorem permission_denied_first:
  assumes "\<not> truthy (user req) \<or> getprop (user req) ''role'' \<notin> {JStr ''ADMIN'', JStr ''SUPER_ADMIN''}"
  shows "handler env req w = (Inl (HttpError 403 msg_forbidden), w)"
proof -
  from assms have "denied (user req)" by (auto simp: denied_def)
  then show ?thesis
    by (simp add: handler_def try_handler_def loadBackup_def msg_nonempty)
qed

theorem permission_denied_first_witness:
  "getprop student ''role'' \<notin> {JStr ''ADMIN'', JStr ''SUPER_ADMIN''}
   \<and> \<not> truthy JUndefined
   \<and> handler (sample_env db_client) \<lparr>user = student, body = body (sample_request ''a.json'' ''merge'' True)\<rparr> world1
       = (Inl (HttpError 403 msg_forbidden), world1)
   \<and> handler (sample_env db_client) \<lparr>user = JUndefined, body = body (sample_request ''a.json'' ''merge'' True)\<rparr> world1
       = (Inl (HttpError 403 msg_forbidden), world1)"
proof -
  have a: "getprop student ''role'' \<notin> {JStr ''ADMIN'', JStr ''SUPER_ADMIN''}"
    by (simp add: student_def)
  have b: "\<not> truthy JUndefined" by simp
  from a b
    permission_denied_first[of "\<lparr>user = student, body = body (sample_request ''a.json'' ''merge'' True)\<rparr>"
      "sample_env db_client" world1]
    permission_denied_first[of "\<lparr>user = JUndefined, body = body (sample_request ''a.json'' ''merge'' True)\<rparr>"
      "sample_env db_client" world1]
  show ?thesis by simp
qed

subsection \<open>C1: a document without metadata or data is rejected before any mutation\<close>

text \<open>
  C1. When the file named by an administrator parses to a document whose \<^verbatim>\<open>metadata\<close>
  or \<^verbatim>\<open>data\<close> is absent (or otherwise falsy), the handler throws the error 400 of
  line 46, and the only change of the world is the logged read of the file: the store
  is the one before the request and no call has been made on it, whatever
  \<^verbatim>\<open>clearExisting\<close> is. The document is any value but \<^verbatim>\<open>null\<close>.
\<close>

theorem malformed_document_rejected:
  assumes "\<not> denied (user req)"
    and "getprop (body req) ''filename'' = JStr name" and "name \<noteq> []"
    and "readFile env (backupPath (cwd env) name) = Some content"
    and "JSON_parse env content = Some doc"
    and "\<not> nullish doc"
    and "\<not> truthy (getprop doc ''metadata'') \<or> \<not> truthy (getprop doc ''data'')"
  shows "handler env req w =
           (Inl (HttpError 400 msg_bad_format), w\<lparr>reads := reads w @ [backupPath (cwd env) name]\<rparr>)"
proof -
  from assms(2) have "\<not> nullish (body req)" by (cases "body req") auto
  with assms show ?thesis
    by (auto simp: handler_def try_handler_def loadBackup_def msg_nonempty Let_def)
qed

theorem malformed_document_rejected_witness:
  "\<not> denied (user (sample_request ''c.json'' ''merge'' True))
   \<and> getprop (body (sample_request ''c.json'' ''merge'' True)) ''filename'' = JStr ''c.json''
   \<and> ''c.json'' \<noteq> []
   \<and> readFile (sample_env db_client) (backupPath (cwd (sample_env db_client)) ''c.json'')
       = Some ''/app/backups/c.json''
   \<and> JSON_parse (sample_env db_client) ''/app/backups/c.json'' = Some backup_c
   \<and> \<not> nullish backup_c
   \<and> \<not> truthy (getprop backup_c ''metadata'')
   \<and> truthy (getprop (body (sample_request ''c.json'' ''merge'' True)) ''clearExisting'')
   \<and> handler (sample_env db_client) (sample_request ''c.json'' ''merge'' True) world1
       = (Inl (HttpError 400 msg_bad_format),
          world1\<lparr>reads := reads world1 @ [backupPath (cwd (sample_env db_client)) ''c.json'']\<rparr>)"
proof -
  have 1: "\<not> denied (user (sample_request ''c.json'' ''merge'' True))" by code_simp
  have 2: "getprop (body (sample_request ''c.json'' ''merge'' True)) ''filename'' = JStr ''c.json''"
    by code_simp
  have 3: "''c.json'' \<noteq> []" by simp
  have 4: "readFile (sample_env db_client) (backupPath (cwd (sample_env db_client)) ''c.json'')
       = Some ''/app/backups/c.json''" by code_simp
  have 5: "JSON_parse (sample_env db_client) ''/app/backups/c.json'' = Some backup_c" by code_simp
  have 6: "\<not> nullish backup_c" by code_simp
  have 7: "\<not> truthy (getprop backup_c ''metadata'')"
    by code_simp
  have 8: "truthy (getprop (body (sample_request ''c.json'' ''merge'' True)) ''clearExisting'')"
    by code_simp
  from malformed_document_rejected[OF 1 2 3 4 5 6 disjI1[OF 7], of world1] 1 2 3 4 5 6 7 8
  show ?thesis by blast
qed

text \<open>
  A file that holds the JSON value \<^verbatim>\<open>null\<close> is not a document with a missing part: the
  read of \<^verbatim>\<open>metadata\<close> throws a TypeError, which the outer \<^verbatim>\<open>catch\<close> turns into
  the error 500. The store is not touched either.
\<close>

lemma null_document_rejected:
  assumes "\<not> denied (user req)"
    and "getprop (body req) ''filename'' = JStr name" and "name \<noteq> []"
    and "readFile env (backupPath (cwd env) name) = Some content"
    and "JSON_parse env content = Some JNull"
  shows "handler env req w =
           (Inl (HttpError 500 msg_restore_failed), w\<lparr>reads := reads w @ [backupPath (cwd env) name]\<rparr>)"
proof -
  from assms(2) have "\<not> nullish (body req)" by (cases "body req") auto
  with assms show ?thesis
    by (auto simp: handler_def try_handler_def loadBackup_def Let_def)
qed

subsection \<open>C2: the file that is read\<close>

text \<open>
  C2, as the code has it. During a request the handler reads no file, or exactly one:
  the path \<^verbatim>\<open>path.join(path.join(process.cwd(), 'backups'), filename)\<close>, for a
  \<^verbatim>\<open>filename\<close> that is a non-empty string. The handler has no check on that path. When
  the working directory is a normalised absolute path and \<^verbatim>\<open>filename\<close> has no
  \<^verbatim>\<open>..\<close> segment, the path read is the backup directory or lies below it.
\<close>

theorem file_read_is_resolved:
  assumes "handler env req w = (out, w')"
  shows "(newReads w w' = []
          \<or> (\<exists>name. getprop (body req) ''filename'' = JStr name \<and> name \<noteq> []
                \<and> newReads w w' = [backupPath (cwd env) name]))
         \<and> (\<forall>segs. cwd env = ''/'' @ join_slash segs \<longrightarrow> list_all plain segs \<longrightarrow>
               (\<forall>name. getprop (body req) ''filename'' = JStr name
                        \<longrightarrow> ''..'' \<notin> set (split_slash name)) \<longrightarrow>
               (\<forall>p \<in> set (newReads w w'). inside (path_join [cwd env, ''backups'']) p))"
proof -
  obtain o1 w1 where l: "loadBackup env req w = (o1, w1)" by (cases "loadBackup env req w")
  have "reads w' = reads w1"
  proof (cases o1)
    case (Inl e)
    with l assms show ?thesis by (simp add: handler_def try_handler_def)
  next
    case (Inr x)
    obtain mode ce doc where x: "x = (mode, ce, doc)" by (cases x)
    obtain o2 w2 where r: "restoreData (prisma env) mode ce doc w1 = (o2, w2)"
      by (cases "restoreData (prisma env) mode ce doc w1")
    with l Inr x assms have "w' = w2"
      by (auto simp: handler_def try_handler_def split: sum.splits)
    with restoreData_reads[OF r] show ?thesis by simp
  qed
  with loadBackup_world[OF l]
  have 1: "newReads w w' = []
          \<or> (\<exists>name. getprop (body req) ''filename'' = JStr name \<and> name \<noteq> []
                \<and> newReads w w' = [backupPath (cwd env) name])"
    by (auto simp: newReads_def)
  have 2: "\<forall>segs. cwd env = ''/'' @ join_slash segs \<longrightarrow> list_all plain segs \<longrightarrow>
               (\<forall>name. getprop (body req) ''filename'' = JStr name
                        \<longrightarrow> ''..'' \<notin> set (split_slash name)) \<longrightarrow>
               (\<forall>p \<in> set (newReads w w'). inside (path_join [cwd env, ''backups'']) p)"
  proof (intro allI impI ballI)
    fix segs p
    assume c: "cwd env = ''/'' @ join_slash segs" and pl: "list_all plain segs"
      and nd: "\<forall>name. getprop (body req) ''filename'' = JStr name
                        \<longrightarrow> ''..'' \<notin> set (split_slash name)"
      and p: "p \<in> set (newReads w w')"
    from 1 p obtain name where n: "getprop (body req) ''filename'' = JStr name" "name \<noteq> []"
      "p = backupPath (cwd env) name" by auto
    from nd n(1) have "''..'' \<notin> set (split_slash name)" by blast
    from backupPath_inside[OF pl n(2) this] show "inside (path_join [cwd env, ''backups'']) p"
      unfolding n(3) c .
  qed
  from 1 2 show ?thesis by (intro conjI)
qed

theorem file_read_is_resolved_witness:
  "run_c = (fst run_c, snd run_c)
   \<and> cwd (sample_env db_client) = ''/'' @ join_slash [''app'']
   \<and> list_all plain [''app'']
   \<and> getprop (body (sample_request ''c.json'' ''merge'' True)) ''filename'' = JStr ''c.json''
   \<and> ''..'' \<notin> set (split_slash ''c.json'')
   \<and> newReads world1 (snd run_c) = [''/app/backups/c.json'']
   \<and> path_join [cwd (sample_env db_client), ''backups''] = ''/app/backups''
   \<and> inside ''/app/backups'' ''/app/backups/c.json''"
proof -
  have h: "run_c = (fst run_c, snd run_c)" by simp
  have c: "cwd (sample_env db_client) = ''/'' @ join_slash [''app'']" by code_simp
  have p: "list_all plain [''app'']" by code_simp
  have f: "getprop (body (sample_request ''c.json'' ''merge'' True)) ''filename'' = JStr ''c.json''"
    by code_simp
  have d: "''..'' \<notin> set (split_slash ''c.json'')" by code_simp
  have n: "newReads world1 (snd run_c) = [''/app/backups/c.json'']" by code_simp
  have j: "path_join [cwd (sample_env db_client), ''backups''] = ''/app/backups''" by code_simp
  from f d have nd: "\<forall>name. getprop (body (sample_request ''c.json'' ''merge'' True)) ''filename'' = JStr name
                        \<longrightarrow> ''..'' \<notin> set (split_slash name)" by simp
  note t = file_read_is_resolved[OF h[unfolded run_c_def], folded run_c_def, THEN conjunct2,
      THEN spec, THEN mp, OF c, THEN mp, OF p, THEN mp, OF nd]
  have "''/app/backups/c.json'' \<in> set (newReads world1 (snd run_c))" unfolding n by simp
  from t[THEN bspec, OF this] have i: "inside ''/app/backups'' ''/app/backups/c.json''"
    unfolding j .
  from h c p f d n j i show ?thesis by (intro conjI)
qed

text \<open>
  The claim as stated has every name that leaves the backup directory rejected. The
  name \<^verbatim>\<open>../secret.json\<close> is not: the handler reads \<^verbatim>\<open>/app/secret.json\<close>, which is
  outside \<^verbatim>\<open>/app/backups\<close>, and restores its three records.
\<close>

theorem path_traversal_counterexample:
  "getprop (body (sample_request ''../secret.json'' ''merge'' False)) ''filename'' = JStr ''../secret.json''
   \<and> path_join [cwd (sample_env db_client), ''backups''] = ''/app/backups''
   \<and> newReads world0 (snd run_escape) = [''/app/secret.json'']
   \<and> \<not> inside ''/app/backups'' ''/app/secret.json''
   \<and> \<not> isl (fst run_escape)
   \<and> recordsRestored (details (projr (fst run_escape))) = 3"
  by code_simp

subsection \<open>C7: the final flags of the result\<close>

text \<open>
  C7. In every result the handler returns: if \<^verbatim>\<open>errors\<close> is not empty then
  \<^verbatim>\<open>success\<close> is false and \<^verbatim>\<open>message\<close> is the message of line 298; if \<^verbatim>\<open>errors\<close>
  is empty then \<^verbatim>\<open>success\<close> is true and \<^verbatim>\<open>message\<close> is the initial one of line 60,
  whatever \<^verbatim>\<open>warnings\<close> holds. The two messages differ (\<open>msg_done_changes\<close>).
\<close>

theorem result_flags:
  assumes "handler env req w = (Inr res, w')"
  shows "(errors (details res) \<noteq> [] \<longrightarrow> \<not> success res \<and> message res = msg_done_with_errors)
         \<and> (errors (details res) = [] \<longrightarrow> success res \<and> message res = msg_done)"
proof -
  from handler_Inr[OF assms] obtain mode ce doc w1 where
    "restoreData (prisma env) mode ce doc w1 = (Inr res, w')" by blast
  from restoreData_Inr[OF this] show ?thesis by auto
qed

theorem result_flags_witness:
  "run_b = (Inr (projr (fst run_b)), snd run_b)
   \<and> errors (details (projr (fst run_b))) = [''users: '' @ unique_failed ''username'']
   \<and> \<not> success (projr (fst run_b))
   \<and> message (projr (fst run_b)) = msg_done_with_errors
   \<and> run_locked = (Inr (projr (fst run_locked)), snd run_locked)
   \<and> errors (details (projr (fst run_locked))) = []
   \<and> warnings (details (projr (fst run_locked)))
       = [msg_clear_failed @ ''permission denied for table User'']
   \<and> success (projr (fst run_locked))
   \<and> message (projr (fst run_locked)) = msg_done"
proof -
  have "\<not> isl (fst run_b)" by code_simp
  then have h1: "run_b = (Inr (projr (fst run_b)), snd run_b)"
    by (simp add: prod_eq_iff)
  from run_locked_eval(1) have h2: "run_locked = (Inr (projr (fst run_locked)), snd run_locked)"
    by (simp add: prod_eq_iff)
  have e1: "errors (details (projr (fst run_b))) = [''users: '' @ unique_failed ''username'']"
    by code_simp
  note e2 = run_locked_eval(2) and w2 = run_locked_eval(3)
  note f1 = result_flags[OF h1[unfolded run_b_def], folded run_b_def]
  note f2 = result_flags[OF h2[unfolded run_locked_def], folded run_locked_def]
  from f1 e1 have "\<not> success (projr (fst run_b))
      \<and> message (projr (fst run_b)) = msg_done_with_errors" by simp
  moreover from f2 e2 have "success (projr (fst run_locked))
      \<and> message (projr (fst run_locked)) = msg_done" by simp
  ultimately show ?thesis using h1 h2 e1 e2 w2 by blast
qed

subsection \<open>C5: the counters of the result\<close>

text \<open>
  C5. In every result the handler returns, for the document \<open>doc\<close> it has loaded:
  \<^verbatim>\<open>tablesProcessed\<close> is the number of names of the fixed order (\<open>restoreOrder\<close>, the
  nine known collections) whose entry in \<^verbatim>\<open>data\<close> is a non-empty array (the four
  of them that have no branch in the \<^verbatim>\<open>switch\<close> count too, with no record restored);
  \<^verbatim>\<open>recordsRestored\<close> is the number of \<^verbatim>\<open>create\<close> and \<^verbatim>\<open>upsert\<close> calls of the
  request that returned, one per record; it and the number of \<^verbatim>\<open>errors\<close> add up to the
  number of records of the five supported collections; every entry of \<^verbatim>\<open>errors\<close>
  starts with the name of a supported collection; and a collection whose name is not in
  the fixed order has no effect at all: two documents that agree on the nine names give
  the same result and the same world.
\<close>

theorem replay_counts:
  assumes "loadBackup env req w = (Inr (mode, ce, doc), w1)"
    and "handler env req w = (Inr res, w')"
  shows "tablesProcessed (details res)
           = length (filter (\<lambda>t. tableRecords (getprop doc ''data'') t \<noteq> []) restoreOrder)
         \<and> recordsRestored (details res) = applied (newCalls w w')
         \<and> recordsRestored (details res) + length (errors (details res))
             = sum_list (map (\<lambda>t. length (tableRecords (getprop doc ''data'') t)) supported)
         \<and> (\<forall>e \<in> set (errors (details res)). \<exists>t \<in> set supported. prefix (t @ '': '') e)
         \<and> (\<forall>doc'. (\<forall>t \<in> set restoreOrder.
                        getprop (getprop doc' ''data'') t = getprop (getprop doc ''data'') t)
               \<longrightarrow> restoreData (prisma env) mode ce doc' w1 = restoreData (prisma env) mode ce doc w1)"
proof -
  from assms have run: "restoreData (prisma env) mode ce doc w1 = (Inr res, w')"
    by (auto simp: handler_def try_handler_def split: prod.splits sum.splits)
  from loadBackup_world[OF assms(1)] have w1: "calls w1 = calls w" by simp
  from restoreData_Inr[OF run] obtain r dlog rlog where sh:
    "calls w' = calls w1 @ dlog @ [(TxBegin, None)] @ rlog @ [(TxCommit, None)]"
    "if truthy ce
     then (case r of None \<Rightarrow> dlog = deleted clearOrder
           | Some e \<Rightarrow> (\<exists>pre m post. clearOrder = pre @ m # post
                          \<and> dlog = deleted pre @ [(DeleteMany m, Some e)]))
     else r = None \<and> dlog = []"
    "recordsRestored (details res) = applied rlog"
    "tablesProcessed (details res) = length (tablesIn (getprop doc ''data''))"
    "applied rlog + length (errors (details res)) = length (recordsIn (getprop doc ''data''))"
    "\<forall>e \<in> set (errors (details res)). \<exists>t \<in> set supported. entryOf t e"
    by blast
  have "applied dlog = 0"
    using sh(2) by (auto simp: applied_def deleted_def split: if_splits option.splits)
  with sh(1) w1 have "applied (newCalls w w') = applied rlog"
    by (simp add: newCalls_def applied_def)
  with sh(3-6) have counts: "tablesProcessed (details res)
           = length (filter (\<lambda>t. tableRecords (getprop doc ''data'') t \<noteq> []) restoreOrder)
         \<and> recordsRestored (details res) = applied (newCalls w w')
         \<and> recordsRestored (details res) + length (errors (details res))
             = sum_list (map (\<lambda>t. length (tableRecords (getprop doc ''data'') t)) supported)
         \<and> (\<forall>e \<in> set (errors (details res)). \<exists>t \<in> set supported. prefix (t @ '': '') e)"
    by (simp add: tablesIn_def length_recordsIn entryOf_def)
  have "\<forall>doc'. (\<forall>t \<in> set restoreOrder.
                        getprop (getprop doc' ''data'') t = getprop (getprop doc ''data'') t)
               \<longrightarrow> restoreData (prisma env) mode ce doc' w1 = restoreData (prisma env) mode ce doc w1"
  proof (intro allI impI)
    fix doc'
    assume "\<forall>t \<in> set restoreOrder.
              getprop (getprop doc' ''data'') t = getprop (getprop doc ''data'') t"
    then have "restoreTables (prisma env) mode (getprop doc' ''data'')
                 = restoreTables (prisma env) mode (getprop doc ''data'')"
      by (rule restoreTables_cong)
    then show "restoreData (prisma env) mode ce doc' w1 = restoreData (prisma env) mode ce doc w1"
      by (simp add: restoreData_def)
  qed
  with counts show ?thesis by blast
qed

theorem replay_counts_witness:
  "loadBackup (sample_env db_client) (sample_request ''a.json'' ''merge'' False) world0
     = (Inr (JStr ''merge'', JBool False, backup_a),
        snd (loadBackup (sample_env db_client) (sample_request ''a.json'' ''merge'' False) world0))
   \<and> run_a = (Inr (projr (fst run_a)), snd run_a)
   \<and> tablesProcessed (details (projr (fst run_a))) = 3
   \<and> recordsRestored (details (projr (fst run_a))) = 3
   \<and> applied (newCalls world0 (snd run_a)) = 3
   \<and> errors (details (projr (fst run_a))) = []
   \<and> restoreData db_client (JStr ''merge'') (JBool False) backup_e
        (snd (loadBackup (sample_env db_client) (sample_request ''a.json'' ''merge'' False) world0))
      = restoreData db_client (JStr ''merge'') (JBool False) backup_a
        (snd (loadBackup (sample_env db_client) (sample_request ''a.json'' ''merge'' False) world0))"
proof -
  let ?l = "loadBackup (sample_env db_client) (sample_request ''a.json'' ''merge'' False) world0"
  have "fst ?l = Inr (JStr ''merge'', JBool False, backup_a)" by code_simp
  then have l: "?l = (Inr (JStr ''merge'', JBool False, backup_a), snd ?l)"
    by (simp add: prod_eq_iff)
  have "\<not> isl (fst run_a)" by code_simp
  then have h: "run_a = (Inr (projr (fst run_a)), snd run_a)"
    by (simp add: prod_eq_iff)
  have t: "length (filter (\<lambda>t. tableRecords (getprop backup_a ''data'') t \<noteq> []) restoreOrder) = 3"
    by code_simp
  have e: "errors (details (projr (fst run_a))) = []" by code_simp
  have s: "sum_list (map (\<lambda>t. length (tableRecords (getprop backup_a ''data'') t)) supported) = 3"
    by code_simp
  have same: "\<forall>t \<in> set restoreOrder.
      getprop (getprop backup_e ''data'') t = getprop (getprop backup_a ''data'') t"
    by code_simp
  have p: "prisma (sample_env db_client) = db_client" by (simp add: sample_env_def)
  note c = replay_counts[OF l h[unfolded run_a_def], folded run_a_def, unfolded p]
  from c t have c1: "tablesProcessed (details (projr (fst run_a))) = 3" by simp
  from c s e have c2: "recordsRestored (details (projr (fst run_a))) = 3" by simp
  from c c2 have c3: "applied (newCalls world0 (snd run_a)) = 3" by simp
  from c same have c4: "restoreData db_client (JStr ''merge'') (JBool False) backup_e (snd ?l)
      = restoreData db_client (JStr ''merge'') (JBool False) backup_a (snd ?l)" by blast
  from l h c1 c2 c3 c4 e show ?thesis by blast
qed

subsection \<open>C6: the pre-clear\<close>

text \<open>
  C6, as the code has it. When \<^verbatim>\<open>clearExisting\<close> is truthy, the handler calls
  \<^verbatim>\<open>deleteMany\<close> on the models in the fixed order of lines 74-82, before the
  transaction starts, and stops at the first call that throws: the calls of the request
  are the deletes of all nine models, each returning, or else the deletes of the models
  before some model of \<open>clearOrder\<close>, each returning, and then the delete of that model,
  which throws and is the last delete of the request; in both cases the start of the
  transaction comes next and no delete follows it. So the models deleted are a
  prefix of \<open>clearOrder\<close>, and all nine when no call throws. Whatever the pre-clear does,
  the transaction is started next; in a result the handler returns, \<^verbatim>\<open>warnings\<close>
  holds the message of the call that threw, behind the prefix of line 86, and nothing
  otherwise, and every non-empty known collection has been processed; when the store
  starts and commits its transactions, the handler does return a result. The order of
  the collections cleared is the reverse of the restore order with \<^verbatim>\<open>playTimes\<close> and
  \<^verbatim>\<open>semesters\<close> exchanged: \<^verbatim>\<open>playTimes\<close> is cleared before \<^verbatim>\<open>semesters\<close> and
  restored before it too.
\<close>

theorem preclear_then_replay:
  assumes "loadBackup env req w = (Inr (mode, ce, doc), w1)" and "truthy ce"
    and "handler env req w = (out, w')"
  shows "prefix (deletions (newCalls w w')) clearOrder
         \<and> (clearFailure (newCalls w w') = None \<longrightarrow> deletions (newCalls w w') = clearOrder)
         \<and> (\<exists>dlog rb rest. newCalls w w' = dlog @ (TxBegin, rb) # rest
                \<and> fst ` set dlog \<subseteq> DeleteMany ` set clearOrder \<and> deletions rest = [])
         \<and> (\<exists>rb rest. deletions rest = []
                \<and> ((newCalls w w' = deleted clearOrder @ (TxBegin, rb) # rest
                      \<and> clearFailure (newCalls w w') = None)
                    \<or> (\<exists>pre m post e. clearOrder = pre @ m # post
                          \<and> newCalls w w' = deleted pre @ (DeleteMany m, Some e) # (TxBegin, rb) # rest
                          \<and> clearFailure (newCalls w w') = Some e)))
         \<and> (\<forall>res. out = Inr res \<longrightarrow>
               warnings (details res)
                 = (case clearFailure (newCalls w w') of None \<Rightarrow> []
                    | Some e \<Rightarrow> [msg_clear_failed @ e])
               \<and> tablesProcessed (details res)
                   = length (filter (\<lambda>t. tableRecords (getprop doc ''data'') t \<noteq> []) restoreOrder))
         \<and> ((\<forall>s. fst (prisma env TxBegin s) = None \<and> fst (prisma env TxCommit s) = None)
               \<longrightarrow> (\<exists>res. out = Inr res))
         \<and> map collectionOf clearOrder
             = [''notifications'', ''notificationSettings'', ''schedules'', ''votes'', ''songs'',
                ''users'', ''playTimes'', ''semesters'', ''systemSettings'']
         \<and> map collectionOf clearOrder = (rev restoreOrder)[6 := ''playTimes'', 7 := ''semesters'']"
proof -
  obtain out1 where run: "restoreData (prisma env) mode ce doc w1 = (out1, w')"
    and out: "out = (case out1 of Inl e \<Rightarrow> Inl (rethrow e) | Inr res \<Rightarrow> Inr res)"
    using assms(1,3)
    by (auto simp: handler_def try_handler_def split: prod.splits sum.splits)
  from loadBackup_world[OF assms(1)] have w1: "calls w1 = calls w" by simp
  from restoreData_log[OF run] obtain dlog rb rest where s0:
    "calls w' = calls w1 @ dlog @ (TxBegin, rb) # rest
           \<and> deletions rest = [] \<and> clearFailure rest = None
           \<and> prefix (deletions dlog) clearOrder
           \<and> (clearFailure dlog = None \<longrightarrow> truthy ce \<longrightarrow> deletions dlog = clearOrder)
           \<and> (\<not> truthy ce \<longrightarrow> dlog = [])
           \<and> fst ` set dlog \<subseteq> DeleteMany ` set clearOrder
           \<and> (\<forall>res. out1 = Inr res \<longrightarrow>
                 warnings (details res)
                   = (case clearFailure dlog of None \<Rightarrow> [] | Some e \<Rightarrow> [msg_clear_failed @ e]))"
    by (elim exE)
  then have s: "calls w' = calls w1 @ dlog @ (TxBegin, rb) # rest"
    "deletions rest = []" "clearFailure rest = None" "prefix (deletions dlog) clearOrder"
    "clearFailure dlog = None \<longrightarrow> truthy ce \<longrightarrow> deletions dlog = clearOrder"
    "fst ` set dlog \<subseteq> DeleteMany ` set clearOrder"
    "\<forall>res. out1 = Inr res \<longrightarrow>
                 warnings (details res)
                   = (case clearFailure dlog of None \<Rightarrow> [] | Some e \<Rightarrow> [msg_clear_failed @ e])"
    by blast+
  have new: "newCalls w w' = dlog @ (TxBegin, rb) # rest"
    using s(1) w1 by (simp add: newCalls_def)
  have del: "deletions (newCalls w w') = deletions dlog"
    unfolding new using s(2) by (simp add: deletions_def)
  have fail: "clearFailure (newCalls w w') = clearFailure dlog"
    unfolding new using s(3) by (simp add: clearFailure_append split: option.splits)
  have 1: "prefix (deletions (newCalls w w')) clearOrder" using s(4) del by simp
  have 2: "clearFailure (newCalls w w') = None \<longrightarrow> deletions (newCalls w w') = clearOrder"
    using s(5) assms(2) del fail by simp
  have 3: "\<exists>dlog rb rest. newCalls w w' = dlog @ (TxBegin, rb) # rest
                \<and> fst ` set dlog \<subseteq> DeleteMany ` set clearOrder \<and> deletions rest = []"
    using new s(6) s(2) by blast
  have 8: "\<exists>rb rest. deletions rest = []
                \<and> ((newCalls w w' = deleted clearOrder @ (TxBegin, rb) # rest
                      \<and> clearFailure (newCalls w w') = None)
                    \<or> (\<exists>pre m post e. clearOrder = pre @ m # post
                          \<and> newCalls w w' = deleted pre @ (DeleteMany m, Some e) # (TxBegin, rb) # rest
                          \<and> clearFailure (newCalls w w') = Some e))"
  proof -
    from restoreData_shape[OF run assms(2)] obtain rb2 rest2 where sh0:
      "deletions rest2 = [] \<and> clearFailure rest2 = None
           \<and> (calls w' = calls w1 @ deleted clearOrder @ (TxBegin, rb2) # rest2
              \<or> (\<exists>pre m post e. clearOrder = pre @ m # post
                    \<and> calls w' = calls w1 @ deleted pre @ (DeleteMany m, Some e) # (TxBegin, rb2) # rest2))"
      by (elim exE)
    then have sh: "deletions rest2 = []" "clearFailure rest2 = None"
      "calls w' = calls w1 @ deleted clearOrder @ (TxBegin, rb2) # rest2
              \<or> (\<exists>pre m post e. clearOrder = pre @ m # post
                    \<and> calls w' = calls w1 @ deleted pre @ (DeleteMany m, Some e) # (TxBegin, rb2) # rest2)"
      by blast+
    from sh(3) show ?thesis
    proof
      assume c: "calls w' = calls w1 @ deleted clearOrder @ (TxBegin, rb2) # rest2"
      then have n: "newCalls w w' = deleted clearOrder @ (TxBegin, rb2) # rest2"
        using w1 by (simp add: newCalls_def)
      have "clearFailure (deleted clearOrder @ (TxBegin, rb2) # rest2) = None"
        using sh(2) by (simp add: clearFailure_append)
      with n sh(1) show ?thesis by metis
    next
      assume "\<exists>pre m post e. clearOrder = pre @ m # post
                    \<and> calls w' = calls w1 @ deleted pre @ (DeleteMany m, Some e) # (TxBegin, rb2) # rest2"
      then obtain pre m post e where p: "clearOrder = pre @ m # post"
        "calls w' = calls w1 @ deleted pre @ (DeleteMany m, Some e) # (TxBegin, rb2) # rest2"
        by (elim exE conjE)
      from p(2) have n: "newCalls w w' = deleted pre @ (DeleteMany m, Some e) # (TxBegin, rb2) # rest2"
        using w1 by (simp add: newCalls_def)
      have f: "clearFailure (deleted pre @ (DeleteMany m, Some e) # (TxBegin, rb2) # rest2) = Some e"
        by (simp add: clearFailure_append)
      have "\<exists>pre m post e. clearOrder = pre @ m # post
                          \<and> newCalls w w' = deleted pre @ (DeleteMany m, Some e) # (TxBegin, rb2) # rest2
                          \<and> clearFailure (newCalls w w') = Some e"
        apply (rule exI[of _ pre], rule exI[of _ m], rule exI[of _ post], rule exI[of _ e])
        using p(1) n f by simp
      with sh(1) show ?thesis
        apply -
        apply (rule exI[of _ rb2], rule exI[of _ rest2])
        apply (rule conjI, assumption)
        apply (rule disjI2, assumption)
        done
    qed
  qed
  have 4: "\<forall>res. out = Inr res \<longrightarrow>
               warnings (details res)
                 = (case clearFailure (newCalls w w') of None \<Rightarrow> []
                    | Some e \<Rightarrow> [msg_clear_failed @ e])
               \<and> tablesProcessed (details res)
                   = length (filter (\<lambda>t. tableRecords (getprop doc ''data'') t \<noteq> []) restoreOrder)"
  proof (intro allI impI)
    fix res assume "out = Inr res"
    with out have o1: "out1 = Inr res" by (cases out1) auto
    from restoreData_Inr[OF run[unfolded o1]]
    have "tablesProcessed (details res) = length (tablesIn (getprop doc ''data''))" by blast
    with s(7) o1 fail show "warnings (details res)
                 = (case clearFailure (newCalls w w') of None \<Rightarrow> []
                    | Some e \<Rightarrow> [msg_clear_failed @ e])
               \<and> tablesProcessed (details res)
                   = length (filter (\<lambda>t. tableRecords (getprop doc ''data'') t \<noteq> []) restoreOrder)"
      by (simp add: tablesIn_def)
  qed
  have 5: "(\<forall>s. fst (prisma env TxBegin s) = None \<and> fst (prisma env TxCommit s) = None)
               \<longrightarrow> (\<exists>res. out = Inr res)"
  proof
    assume "\<forall>s. fst (prisma env TxBegin s) = None \<and> fst (prisma env TxCommit s) = None"
    from restoreData_total[OF this, of mode ce doc w1] run obtain res where "out1 = Inr res"
      by auto
    with out show "\<exists>res. out = Inr res" by simp
  qed
  have 6: "map collectionOf clearOrder
             = [''notifications'', ''notificationSettings'', ''schedules'', ''votes'', ''songs'',
                ''users'', ''playTimes'', ''semesters'', ''systemSettings'']"
    by (simp add: clearOrder_def)
  have 7: "map collectionOf clearOrder = (rev restoreOrder)[6 := ''playTimes'', 7 := ''semesters'']"
    by (simp add: clearOrder_def restoreOrder_def)
  from 1 2 3 8 4 5 6 7 show ?thesis by (intro conjI)
qed

theorem preclear_then_replay_witness:
  "loadBackup (sample_env locked_client) (sample_request ''d.json'' ''merge'' True) blank
     = (Inr (JStr ''merge'', JBool True, backup_d),
        \<lparr>store = (), calls = [], reads = [''/app/backups/d.json'']\<rparr>)
   \<and> truthy (JBool True)
   \<and> run_locked = (Inr (projr (fst run_locked)), snd run_locked)
   \<and> deletions (newCalls blank (snd run_locked))
       = [Notification, NotificationSettings, Schedule, Vote, Song, User]
   \<and> prefix (deletions (newCalls blank (snd run_locked))) clearOrder
   \<and> clearFailure (newCalls blank (snd run_locked)) = Some ''permission denied for table User''
   \<and> take 7 (newCalls blank (snd run_locked))
       = deleted [Notification, NotificationSettings, Schedule, Vote, Song]
           @ [(DeleteMany User, Some ''permission denied for table User''), (TxBegin, None)]
   \<and> deletions (drop 7 (newCalls blank (snd run_locked))) = []
   \<and> warnings (details (projr (fst run_locked)))
       = [msg_clear_failed @ ''permission denied for table User'']
   \<and> tablesProcessed (details (projr (fst run_locked))) = 1"
proof -
  have l: "loadBackup (sample_env locked_client) (sample_request ''d.json'' ''merge'' True) blank
     = (Inr (JStr ''merge'', JBool True, backup_d),
        \<lparr>store = (), calls = [], reads = [''/app/backups/d.json'']\<rparr>)" by code_simp
  have t: "truthy (JBool True)" by simp
  from run_locked_eval(1) have h: "run_locked = (Inr (projr (fst run_locked)), snd run_locked)"
    by (simp add: prod_eq_iff)
  have n: "length (filter (\<lambda>t. tableRecords (getprop backup_d ''data'') t \<noteq> []) restoreOrder) = 1"
    by code_simp
  note c = preclear_then_replay[OF l t h[unfolded run_locked_def], folded run_locked_def]
  from c have c1: "prefix (deletions (newCalls blank (snd run_locked))) clearOrder" by blast
  from c have "warnings (details (projr (fst run_locked)))
                 = (case clearFailure (newCalls blank (snd run_locked)) of None \<Rightarrow> []
                    | Some e \<Rightarrow> [msg_clear_failed @ e])
               \<and> tablesProcessed (details (projr (fst run_locked)))
                   = length (filter (\<lambda>t. tableRecords (getprop backup_d ''data'') t \<noteq> []) restoreOrder)"
    by blast
  with run_locked_eval(6) n have c2: "warnings (details (projr (fst run_locked)))
       = [msg_clear_failed @ ''permission denied for table User'']
      \<and> tablesProcessed (details (projr (fst run_locked))) = 1" by simp
  from l t h run_locked_eval(5,6) run_locked_log c1 c2 show ?thesis by (intro conjI) simp_all
qed

text \<open>
  The claim as stated asks for exactly the reverse of the restore order. A request with
  \<^verbatim>\<open>clearExisting\<close> on a store that accepts every call deletes from the nine models
  in an order that is not that reverse.
\<close>

theorem preclear_order_counterexample:
  "fst run_clear = Inr (initialResults\<lparr>details := (details initialResults)\<lparr>tablesProcessed := 1, recordsRestored := 1\<rparr>\<rparr>)
   \<and> deletions (calls (snd run_clear)) = clearOrder
   \<and> map collectionOf (deletions (calls (snd run_clear))) \<noteq> rev restoreOrder"
proof -
  let ?w1 = "\<lparr>store = (), calls = [], reads = [''/app/backups/d.json'']\<rparr>"
  let ?w2 = "\<lparr>store = (), calls = deleted clearOrder, reads = [''/app/backups/d.json'']\<rparr>"
  let ?res = "initialResults\<lparr>details := (details initialResults)\<lparr>tablesProcessed := 1, recordsRestored := 1\<rparr>\<rparr>"
  let ?t = "transaction ready_client (restoreTables ready_client (JStr ''merge'') (getprop backup_d ''data''))
              (initialResults, ?w2)"
  have p: "prisma (sample_env ready_client) = ready_client" by (simp add: sample_env_def)
  have l: "loadBackup (sample_env ready_client) (sample_request ''d.json'' ''merge'' True) blank
             = (Inr (JStr ''merge'', JBool True, backup_d), ?w1)" by code_simp
  have c: "preClear ready_client (JBool True) ?w1 = (None, ?w2)" by code_simp
  have t: "fst ?t = Inr ?res" by code_simp
  have d: "deletions (calls (snd ?t)) = clearOrder" by code_simp
  have f: "finalize ?res = ?res" by code_simp
  have n: "map collectionOf clearOrder \<noteq> rev restoreOrder" by code_simp
  from handler_steps[OF l, unfolded p, OF c] t have "run_clear = (Inr (finalize ?res), snd ?t)"
    by (simp add: run_clear_def)
  then have r: "run_clear = (Inr ?res, snd ?t)" by (simp only: f)
  have 1: "fst run_clear = Inr ?res" by (simp only: r fst_conv)
  have 2: "deletions (calls (snd run_clear)) = clearOrder" by (simp only: r snd_conv d)
  have 3: "map collectionOf (deletions (calls (snd run_clear))) \<noteq> rev restoreOrder"
    by (simp only: 2 n not_False_eq_True)
  from 1 2 3 show ?thesis by (intro conjI)
qed

subsection \<open>C3: restoring a record twice under merge\<close>

text \<open>
  C3. For each of the five supported collections, with its model \<open>m\<close> and natural key
  \<open>keyField m\<close> (\<^verbatim>\<open>username\<close> for users, \<^verbatim>\<open>name\<close> for semesters, \<^verbatim>\<open>id\<close> for songs,
  play times and system settings), and every record that has its key: when the record is
  restored twice under \<^verbatim>\<open>merge\<close> into a store whose keys are unique, both restores
  succeed, the table holds exactly one row with the record's key after the first restore
  and after the second, and the second restore adds no row. The store is \<open>db_client\<close>.
\<close>

theorem merge_twice_one_row:
  assumes "collectionOf m \<in> set supported" and "unique_key m (store w)"
    and "\<not> nullish r" and "\<not> nullish (getprop r (keyField m))"
    and "restoreRecord db_client (JStr ''merge'') (collectionOf m) r w = (out1, w1)"
    and "restoreRecord db_client (JStr ''merge'') (collectionOf m) r w1 = (out2, w2)"
  shows "out1 = Restored \<and> out2 = Restored
         \<and> length (rowsWith (keyField m) (getprop r (keyField m)) (tables (store w1) m)) = 1
         \<and> length (rowsWith (keyField m) (getprop r (keyField m)) (tables (store w2) m)) = 1
         \<and> length (tables (store w2) m) = length (tables (store w1) m)"
proof -
  from merge_record[OF assms(1,2,5)] assms(3,4)
  have first: "out1 = Restored"
    and one: "length (rowsWith (keyField m) (getprop r (keyField m)) (tables (store w1) m)) = 1"
    and uniq: "unique_key m (store w1)" by simp_all
  from one have ne: "rowsWith (keyField m) (getprop r (keyField m)) (tables (store w1) m) \<noteq> []"
    by auto
  from merge_record[OF assms(1) uniq assms(6)] assms(3,4) ne one first show ?thesis by simp
qed

theorem merge_twice_one_row_witness:
  "collectionOf User \<in> set supported
   \<and> unique_key User (store world0)
   \<and> \<not> nullish alice \<and> \<not> nullish (getprop alice (keyField User))
   \<and> restoreRecord db_client (JStr ''merge'') (collectionOf User) alice world0 = (Restored, merged_once)
   \<and> restoreRecord db_client (JStr ''merge'') (collectionOf User) alice merged_once
       = (Restored, merged_twice)
   \<and> length (rowsWith (keyField User) (getprop alice (keyField User)) (tables (store merged_twice) User)) = 1
   \<and> length (tables (store merged_once) User) = 1
   \<and> length (tables (store merged_twice) User) = 1"
proof -
  have s: "collectionOf User \<in> set supported" by code_simp
  have u: "unique_key User (store world0)" by code_simp
  have a: "\<not> nullish alice" by code_simp
  have k: "\<not> nullish (getprop alice (keyField User))" by code_simp
  have r1: "restoreRecord db_client (JStr ''merge'') (collectionOf User) alice world0
              = (fst (restoreRecord db_client (JStr ''merge'') (collectionOf User) alice world0),
                 merged_once)"
    by (simp add: merged_once_def)
  have r2: "restoreRecord db_client (JStr ''merge'') (collectionOf User) alice merged_once
              = (fst (restoreRecord db_client (JStr ''merge'') (collectionOf User) alice merged_once),
                 merged_twice)"
    by (simp add: merged_twice_def)
  have n: "length (tables (store merged_once) User) = 1" by code_simp
  note t = merge_twice_one_row[OF s u a k r1 r2]
  from t r1 have r1': "restoreRecord db_client (JStr ''merge'') (collectionOf User) alice world0
                         = (Restored, merged_once)" by simp
  from t r2 have r2': "restoreRecord db_client (JStr ''merge'') (collectionOf User) alice merged_once
                         = (Restored, merged_twice)" by simp
  from t have c: "length (rowsWith (keyField User) (getprop alice (keyField User))
                     (tables (store merged_twice) User)) = 1" by simp
  from t n have m: "length (tables (store merged_twice) User) = 1" by simp
  from s u a k r1' r2' c n m show ?thesis by (intro conjI)
qed

subsection \<open>C9: a merge does not write the password of an existing user\<close>

text \<open>
  C9. Under \<^verbatim>\<open>merge\<close>, a \<^verbatim>\<open>users\<close> record leads to one \<^verbatim>\<open>upsert\<close> keyed by
  \<^verbatim>\<open>username\<close> whose \<^verbatim>\<open>update\<close> part names \<^verbatim>\<open>name\<close>, \<^verbatim>\<open>grade\<close>, \<^verbatim>\<open>class\<close>,
  \<^verbatim>\<open>role\<close>, \<^verbatim>\<open>lastLogin\<close>, \<^verbatim>\<open>lastLoginIp\<close> and \<^verbatim>\<open>passwordChangedAt\<close> and not
  \<^verbatim>\<open>password\<close>, and whose \<^verbatim>\<open>create\<close> part carries the record's \<^verbatim>\<open>password\<close>. In
  the store \<open>db_client\<close>: when a row with that \<^verbatim>\<open>username\<close> exists, the restore
  succeeds and changes only that row, whose \<^verbatim>\<open>password\<close> and \<^verbatim>\<open>username\<close> stay, whose
  two dates become the record's dates (or null), and whose other five columns take the
  record's values (a value that is \<^verbatim>\<open>undefined\<close> leaves the column as it was); when no
  such row exists, a row is added with the record's \<^verbatim>\<open>password\<close>.
\<close>

theorem merge_keeps_password:
  assumes "\<not> nullish r" and "\<not> nullish (getprop r ''username'')"
    and "unique_key User (store w)"
    and "restoreRecord db_client (JStr ''merge'') ''users'' r w = (out, w')"
  shows "(\<exists>upd crt.
            recordCall (JStr ''merge'') ''users'' r
              = Some (Inr (Upsert User [(''username'', getprop r ''username'')] upd crt))
            \<and> map fst upd = [''name'', ''grade'', ''class'', ''role'', ''lastLogin'',
                              ''lastLoginIp'', ''passwordChangedAt'']
            \<and> (''password'', getprop r ''password'') \<in> set crt)
         \<and> out = Restored
         \<and> (rowsWith ''username'' (getprop r ''username'') (tables (store w) User) \<noteq> [] \<longrightarrow>
               (\<exists>f. tables (store w') User
                      = map (\<lambda>old. if old ''username'' = Some (getprop r ''username'') then f old else old)
                          (tables (store w) User)
                    \<and> (\<forall>old. f old ''password'' = old ''password''
                          \<and> f old ''username'' = old ''username''
                          \<and> f old ''lastLogin''
                              = Some (if truthy (getprop r ''lastLogin'')
                                      then JDate (getprop r ''lastLogin'') else JNull)
                          \<and> f old ''passwordChangedAt''
                              = Some (if truthy (getprop r ''passwordChangedAt'')
                                      then JDate (getprop r ''passwordChangedAt'') else JNull)
                          \<and> (\<forall>k \<in> {''name'', ''grade'', ''class'', ''role'', ''lastLoginIp''}.
                                f old k = (if getprop r k = JUndefined then old k
                                           else Some (getprop r k))))))
         \<and> (rowsWith ''username'' (getprop r ''username'') (tables (store w) User) = [] \<longrightarrow>
               (\<exists>new. tables (store w') User = tables (store w) User @ [new]
                      \<and> new ''username'' = Some (getprop r ''username'')
                      \<and> new ''password'' = (if getprop r ''password'' = JUndefined then None
                                              else Some (getprop r ''password''))))"
proof -
  let ?u = "getprop r ''username''"
  define upd where "upd =
             [(''name'', getprop r ''name''),
              (''grade'', getprop r ''grade''),
              (''class'', getprop r ''class''),
              (''role'', getprop r ''role''),
              (''lastLogin'', if truthy (getprop r ''lastLogin'')
                              then JDate (getprop r ''lastLogin'') else JNull),
              (''lastLoginIp'', getprop r ''lastLoginIp''),
              (''passwordChangedAt'', if truthy (getprop r ''passwordChangedAt'')
                              then JDate (getprop r ''passwordChangedAt'') else JNull)]"
  define crt where "crt =
             [(''username'', getprop r ''username''),
              (''name'', getprop r ''name''),
              (''password'', getprop r ''password''),
              (''grade'', getprop r ''grade''),
              (''class'', getprop r ''class''),
              (''role'', getprop r ''role''),
              (''lastLogin'', if truthy (getprop r ''lastLogin'')
                              then JDate (getprop r ''lastLogin'') else JNull),
              (''lastLoginIp'', getprop r ''lastLoginIp''),
              (''passwordChangedAt'', if truthy (getprop r ''passwordChangedAt'')
                              then JDate (getprop r ''passwordChangedAt'') else JNull)]"
  have c: "recordCall (JStr ''merge'') ''users'' r
             = Some (Inr (Upsert User [(''username'', ?u)] upd crt))"
    unfolding upd_def crt_def by (rule users_merge_call[OF assms(1)])
  have names: "map fst upd = [''name'', ''grade'', ''class'', ''role'', ''lastLogin'',
                              ''lastLoginIp'', ''passwordChangedAt'']"
    by (simp add: upd_def)
  have dist: "distinct (map fst upd)" unfolding names by simp
  have notin: "''password'' \<notin> fst ` set upd" "''username'' \<notin> fst ` set upd"
  proof -
    have "''password'' \<notin> set (map fst upd)" "''username'' \<notin> set (map fst upd)"
      unfolding names by simp_all
    then show "''password'' \<notin> fst ` set upd" "''username'' \<notin> fst ` set upd" by simp_all
  qed
  have dates: "(''lastLogin'', if truthy (getprop r ''lastLogin'')
                              then JDate (getprop r ''lastLogin'') else JNull) \<in> set upd"
    "(''passwordChangedAt'', if truthy (getprop r ''passwordChangedAt'')
                              then JDate (getprop r ''passwordChangedAt'') else JNull) \<in> set upd"
    by (simp_all add: upd_def)
  have plain: "\<And>k. k \<in> {''name'', ''grade'', ''class'', ''role'', ''lastLoginIp''}
                 \<Longrightarrow> (k, getprop r k) \<in> set upd"
    by (auto simp: upd_def)
  have cnames: "map fst crt = [''username'', ''name'', ''password'', ''grade'', ''class'', ''role'',
                               ''lastLogin'', ''lastLoginIp'', ''passwordChangedAt'']"
    by (simp add: crt_def)
  have cdist: "distinct (map fst crt)" unfolding cnames by simp
  have cin: "(''username'', ?u) \<in> set crt" "(''password'', getprop r ''password'') \<in> set crt"
    by (simp_all add: crt_def)
  have noid: "''id'' \<notin> fst ` set crt"
  proof -
    have "''id'' \<notin> set (map fst crt)" unfolding cnames by simp
    then show ?thesis by simp
  qed
  have 1: "\<exists>upd crt.
            recordCall (JStr ''merge'') ''users'' r
              = Some (Inr (Upsert User [(''username'', ?u)] upd crt))
            \<and> map fst upd = [''name'', ''grade'', ''class'', ''role'', ''lastLogin'',
                              ''lastLoginIp'', ''passwordChangedAt'']
            \<and> (''password'', getprop r ''password'') \<in> set crt"
    apply (rule exI[of _ upd], rule exI[of _ crt])
    apply (intro conjI)
      apply (rule c)
     apply (rule names)
    apply (rule cin(2))
    done
  have sup: "collectionOf User \<in> set supported" by (simp add: supported_def)
  from merge_record[OF sup assms(3)] assms(1,2,4) have 2: "out = Restored" by simp
  from assms(4) c 2 have st: "db_upsert User [(''username'', ?u)] upd crt (store w) = (None, store w')"
    by (auto simp: restoreRecord_def call_def split: prod.splits option.splits)
  have 3: "rowsWith ''username'' ?u (tables (store w) User) \<noteq> [] \<longrightarrow>
               (\<exists>f. tables (store w') User
                      = map (\<lambda>old. if old ''username'' = Some ?u then f old else old)
                          (tables (store w) User)
                    \<and> (\<forall>old. f old ''password'' = old ''password''
                          \<and> f old ''username'' = old ''username''
                          \<and> f old ''lastLogin''
                              = Some (if truthy (getprop r ''lastLogin'')
                                      then JDate (getprop r ''lastLogin'') else JNull)
                          \<and> f old ''passwordChangedAt''
                              = Some (if truthy (getprop r ''passwordChangedAt'')
                                      then JDate (getprop r ''passwordChangedAt'') else JNull)
                          \<and> (\<forall>k \<in> {''name'', ''grade'', ''class'', ''role'', ''lastLoginIp''}.
                                f old k = (if getprop r k = JUndefined then old k
                                           else Some (getprop r k)))))"
  proof
    assume ex: "rowsWith ''username'' ?u (tables (store w) User) \<noteq> []"
    have k: "keyField User \<notin> fst ` set upd" using notin(2) by simp
    have ex': "rowsWith (keyField User) ?u (tables (store w) User) \<noteq> []" using ex by simp
    from db_upsert_existing[OF assms(2) ex' k assms(3), of crt] st
    have t: "tables (store w') User
               = map (\<lambda>old. if old ''username'' = Some ?u then setFields upd old else old)
                   (tables (store w) User)"
      by auto
    have other: "\<And>old. setFields upd old ''password'' = old ''password''"
      "\<And>old. setFields upd old ''username'' = old ''username''"
      using notin by (simp_all add: setFields_other)
    have d1: "\<And>old. setFields upd old ''lastLogin''
                              = Some (if truthy (getprop r ''lastLogin'')
                                      then JDate (getprop r ''lastLogin'') else JNull)"
      using setFields_find[OF dist dates(1)] by simp
    have d2: "\<And>old. setFields upd old ''passwordChangedAt''
                              = Some (if truthy (getprop r ''passwordChangedAt'')
                                      then JDate (getprop r ''passwordChangedAt'') else JNull)"
      using setFields_find[OF dist dates(2)] by simp
    have pl: "\<And>old k. k \<in> {''name'', ''grade'', ''class'', ''role'', ''lastLoginIp''} \<Longrightarrow>
        setFields upd old k = (if getprop r k = JUndefined then old k else Some (getprop r k))"
      using setFields_find[OF dist plain] by blast
    from other d1 d2 pl
    have p: "\<forall>old. setFields upd old ''password'' = old ''password''
                          \<and> setFields upd old ''username'' = old ''username''
                          \<and> setFields upd old ''lastLogin''
                              = Some (if truthy (getprop r ''lastLogin'')
                                      then JDate (getprop r ''lastLogin'') else JNull)
                          \<and> setFields upd old ''passwordChangedAt''
                              = Some (if truthy (getprop r ''passwordChangedAt'')
                                      then JDate (getprop r ''passwordChangedAt'') else JNull)
                          \<and> (\<forall>k \<in> {''name'', ''grade'', ''class'', ''role'', ''lastLoginIp''}.
                                setFields upd old k = (if getprop r k = JUndefined then old k
                                           else Some (getprop r k)))"
      by blast
    from t p show "\<exists>f. tables (store w') User
                      = map (\<lambda>old. if old ''username'' = Some ?u then f old else old)
                          (tables (store w) User)
                    \<and> (\<forall>old. f old ''password'' = old ''password''
                          \<and> f old ''username'' = old ''username''
                          \<and> f old ''lastLogin''
                              = Some (if truthy (getprop r ''lastLogin'')
                                      then JDate (getprop r ''lastLogin'') else JNull)
                          \<and> f old ''passwordChangedAt''
                              = Some (if truthy (getprop r ''passwordChangedAt'')
                                      then JDate (getprop r ''passwordChangedAt'') else JNull)
                          \<and> (\<forall>k \<in> {''name'', ''grade'', ''class'', ''role'', ''lastLoginIp''}.
                                f old k = (if getprop r k = JUndefined then old k
                                           else Some (getprop r k))))"
      by (intro exI[of _ "setFields upd"] conjI)
  qed
  have 4: "rowsWith ''username'' ?u (tables (store w) User) = [] \<longrightarrow>
               (\<exists>new. tables (store w') User = tables (store w) User @ [new]
                      \<and> new ''username'' = Some ?u
                      \<and> new ''password'' = (if getprop r ''password'' = JUndefined then None
                                              else Some (getprop r ''password'')))"
  proof
    assume no: "rowsWith ''username'' ?u (tables (store w) User) = []"
    from assms(2) have u: "?u \<noteq> JUndefined" by auto
    have key: "setFields crt Map.empty (keyField User) = Some ?u"
      using setFields_find[OF cdist cin(1), of Map.empty] u by simp
    have noid': "keyField User = ''id'' \<or> ''id'' \<notin> fst ` set crt" using noid by simp
    from no assms(2) have "db_upsert User [(''username'', ?u)] upd crt (store w)
        = db_create User crt (store w)" by (simp add: db_upsert_def)
    with st db_create_result[OF key assms(2) noid', of "store w"] no
    have "store w' = (store w)\<lparr>tables := (tables (store w))(User := tables (store w) User @
              [(setFields crt Map.empty)(''id'' \<mapsto> JNum (nextId (store w) User))]),
            nextId := (nextId (store w))(User := nextId (store w) User + 1)\<rparr>"
      by simp
    then have "tables (store w') User = tables (store w) User
            @ [(setFields crt Map.empty)(''id'' \<mapsto> JNum (nextId (store w) User))]"
      by simp
    moreover have "((setFields crt Map.empty)(''id'' \<mapsto> JNum (nextId (store w) User))) ''username''
        = Some ?u" using key by simp
    moreover have "((setFields crt Map.empty)(''id'' \<mapsto> JNum (nextId (store w) User))) ''password''
        = (if getprop r ''password'' = JUndefined then None else Some (getprop r ''password''))"
      using setFields_find[OF cdist cin(2), of Map.empty] by simp
    ultimately show "\<exists>new. tables (store w') User = tables (store w) User @ [new]
                      \<and> new ''username'' = Some ?u
                      \<and> new ''password'' = (if getprop r ''password'' = JUndefined then None
                                              else Some (getprop r ''password''))"
      by blast
  qed
  from 1 2 3 4 show ?thesis by (intro conjI)
qed

theorem merge_keeps_password_witness:
  "\<not> nullish alice \<and> \<not> nullish (getprop alice ''username'')
   \<and> unique_key User (store world1)
   \<and> restoreRecord db_client (JStr ''merge'') ''users'' alice world1 = (Restored, merged_alice)
   \<and> getprop alice ''password'' = JStr ''hash-from-backup''
   \<and> map (\<lambda>r. r ''username'') (tables (store world1) User) = [Some (JStr ''alice'')]
   \<and> map (\<lambda>r. r ''password'') (tables (store world1) User) = [Some (JStr ''current-hash'')]
   \<and> map (\<lambda>r. r ''password'') (tables (store merged_alice) User) = [Some (JStr ''current-hash'')]
   \<and> map (\<lambda>r. r ''name'') (tables (store merged_alice) User) = [Some (JStr ''Alice'')]"
proof -
  have a: "\<not> nullish alice" by code_simp
  have b: "\<not> nullish (getprop alice ''username'')" by code_simp
  have u: "unique_key User (store world1)" by code_simp
  have r: "restoreRecord db_client (JStr ''merge'') ''users'' alice world1
             = (fst (restoreRecord db_client (JStr ''merge'') ''users'' alice world1), merged_alice)"
    by (simp add: merged_alice_def)
  have p: "getprop alice ''password'' = JStr ''hash-from-backup''" by code_simp
  have n: "getprop alice ''name'' = JStr ''Alice''" by code_simp
  have g: "getprop alice ''username'' = JStr ''alice''" by code_simp
  have ex: "rowsWith ''username'' (getprop alice ''username'') (tables (store world1) User) \<noteq> []"
    by code_simp
  obtain old where t: "tables (store world1) User = [old]"
    and o: "old ''username'' = Some (JStr ''alice'')" "old ''password'' = Some (JStr ''current-hash'')"
    by (simp add: world1_def)
  note c = merge_keeps_password[OF a b u r]
  note res = c[THEN conjunct2, THEN conjunct1]
  note c3 = c[THEN conjunct2, THEN conjunct2, THEN conjunct1, THEN mp, OF ex]
  from c3 obtain f where f:
    "tables (store merged_alice) User
       = map (\<lambda>old. if old ''username'' = Some (getprop alice ''username'') then f old else old)
           (tables (store world1) User)
     \<and> (\<forall>old. f old ''password'' = old ''password''
            \<and> f old ''username'' = old ''username''
            \<and> f old ''lastLogin''
                = Some (if truthy (getprop alice ''lastLogin'')
                        then JDate (getprop alice ''lastLogin'') else JNull)
            \<and> f old ''passwordChangedAt''
                = Some (if truthy (getprop alice ''passwordChangedAt'')
                        then JDate (getprop alice ''passwordChangedAt'') else JNull)
            \<and> (\<forall>k \<in> {''name'', ''grade'', ''class'', ''role'', ''lastLoginIp''}.
                  f old k = (if getprop alice k = JUndefined then old k
                             else Some (getprop alice k))))"
    by (rule exE)
  note f1 = f[THEN conjunct1]
  note f2 = f[THEN conjunct2, THEN spec, of old]
  from f1 have new: "tables (store merged_alice) User = [f old]"
    unfolding t g using o(1) by simp
  from f2[THEN conjunct1] o(2) have pw: "f old ''password'' = Some (JStr ''current-hash'')" by simp
  have "''name'' \<in> {''name'', ''grade'', ''class'', ''role'', ''lastLoginIp''}" by simp
  from f2[THEN conjunct2, THEN conjunct2, THEN conjunct2, THEN conjunct2, THEN bspec, OF this]
  have nm: "f old ''name'' = Some (JStr ''Alice'')" unfolding n by simp
  have r': "restoreRecord db_client (JStr ''merge'') ''users'' alice world1 = (Restored, merged_alice)"
    using r res by simp
  have m0: "map (\<lambda>r. r ''username'') (tables (store world1) User) = [Some (JStr ''alice'')]"
    "map (\<lambda>r. r ''password'') (tables (store world1) User) = [Some (JStr ''current-hash'')]"
    unfolding t using o by simp_all
  have m1: "map (\<lambda>r. r ''password'') (tables (store merged_alice) User) = [Some (JStr ''current-hash'')]"
    "map (\<lambda>r. r ''name'') (tables (store merged_alice) User) = [Some (JStr ''Alice'')]"
    unfolding new using pw nm by simp_all
  from a b u r' p m0 m1 show ?thesis by (intro conjI)
qed

subsection \<open>C10: inserts that leave out the id of the backup\<close>

text \<open>
  C10. For \<^verbatim>\<open>songs\<close>, \<^verbatim>\<open>playTimes\<close> and \<^verbatim>\<open>systemSettings\<close> and every record: when
  the mode is not \<^verbatim>\<open>merge\<close>, the record leads to a \<^verbatim>\<open>create\<close> whose data has no
  \<^verbatim>\<open>id\<close> (a song's \<^verbatim>\<open>preferredPlayTimeId\<close> is passed on as it is in the backup); the
  call is the same for two records that differ in their \<^verbatim>\<open>id\<close> only; and in the store
  \<open>db_client\<close> the row inserted gets the next value of the table's counter as its
  \<^verbatim>\<open>id\<close>. Under \<^verbatim>\<open>merge\<close> the record leads to an \<^verbatim>\<open>upsert\<close> keyed by the record's
  \<^verbatim>\<open>id\<close>, whose \<^verbatim>\<open>create\<close> part carries that \<^verbatim>\<open>id\<close>, and after a restore that
  succeeded the table holds one row with the record's \<^verbatim>\<open>id\<close>.
\<close>

theorem replace_drops_backup_id:
  assumes "m \<in> {Song, PlayTime, SystemSettings}" and "\<not> nullish r"
  shows "(\<forall>mode. mode \<noteq> JStr ''merge'' \<longrightarrow>
            (\<exists>d. recordCall mode (collectionOf m) r = Some (Inr (Create m d))
                 \<and> ''id'' \<notin> fst ` set d
                 \<and> (m = Song \<longrightarrow>
                       (''preferredPlayTimeId'', getprop r ''preferredPlayTimeId'') \<in> set d)))
         \<and> (\<forall>mode r'. mode \<noteq> JStr ''merge'' \<longrightarrow> \<not> nullish r' \<longrightarrow>
               (\<forall>k. k \<noteq> ''id'' \<longrightarrow> getprop r' k = getprop r k) \<longrightarrow>
               recordCall mode (collectionOf m) r' = recordCall mode (collectionOf m) r)
         \<and> (\<forall>mode w w'. mode \<noteq> JStr ''merge'' \<longrightarrow>
               restoreRecord db_client mode (collectionOf m) r w = (Restored, w') \<longrightarrow>
               (\<exists>row. tables (store w') m = tables (store w) m @ [row]
                      \<and> row ''id'' = Some (JNum (nextId (store w) m))))
         \<and> (\<exists>upd crt. recordCall (JStr ''merge'') (collectionOf m) r
                          = Some (Inr (Upsert m [(''id'', getprop r ''id'')] upd crt))
                        \<and> (''id'', getprop r ''id'') \<in> set crt \<and> ''id'' \<notin> fst ` set upd)
         \<and> (\<forall>w w'. unique_key m (store w) \<longrightarrow>
               restoreRecord db_client (JStr ''merge'') (collectionOf m) r w = (Restored, w') \<longrightarrow>
               length (rowsWith ''id'' (getprop r ''id'') (tables (store w') m)) = 1)"
proof -
  from assms(1) have sup: "collectionOf m \<in> set supported" and k: "keyField m = ''id''"
    by (auto simp: supported_def)
  have 1: "\<forall>mode. mode \<noteq> JStr ''merge'' \<longrightarrow>
            (\<exists>d. recordCall mode (collectionOf m) r = Some (Inr (Create m d))
                 \<and> ''id'' \<notin> fst ` set d
                 \<and> (m = Song \<longrightarrow>
                       (''preferredPlayTimeId'', getprop r ''preferredPlayTimeId'') \<in> set d))"
  proof (intro allI impI)
    fix mode :: jsval assume "mode \<noteq> JStr ''merge''"
    from replace_call[OF sup assms(2) this] obtain d where
      "recordCall mode (collectionOf m) r = Some (Inr (Create m d))" "''id'' \<notin> fst ` set d"
      "m = Song \<longrightarrow> (''preferredPlayTimeId'', getprop r ''preferredPlayTimeId'') \<in> set d"
      by (elim exE conjE) simp
    then show "\<exists>d. recordCall mode (collectionOf m) r = Some (Inr (Create m d))
                 \<and> ''id'' \<notin> fst ` set d
                 \<and> (m = Song \<longrightarrow>
                       (''preferredPlayTimeId'', getprop r ''preferredPlayTimeId'') \<in> set d)"
      by (intro exI[of _ d] conjI)
  qed
  have 2: "\<forall>mode r'. mode \<noteq> JStr ''merge'' \<longrightarrow> \<not> nullish r' \<longrightarrow>
               (\<forall>k. k \<noteq> ''id'' \<longrightarrow> getprop r' k = getprop r k) \<longrightarrow>
               recordCall mode (collectionOf m) r' = recordCall mode (collectionOf m) r"
    using replace_call_ignores_id[OF sup assms(2)] by (intro allI impI)
  have 3: "\<forall>mode w w'. mode \<noteq> JStr ''merge'' \<longrightarrow>
               restoreRecord db_client mode (collectionOf m) r w = (Restored, w') \<longrightarrow>
               (\<exists>row. tables (store w') m = tables (store w) m @ [row]
                      \<and> row ''id'' = Some (JNum (nextId (store w) m)))"
  proof (intro allI impI)
    fix mode :: jsval and w w' :: "db world"
    assume mode: "mode \<noteq> JStr ''merge''"
      and run: "restoreRecord db_client mode (collectionOf m) r w = (Restored, w')"
    from replace_call[OF sup assms(2) mode] obtain d where
      c: "recordCall mode (collectionOf m) r = Some (Inr (Create m d))"
      and noid: "''id'' \<notin> fst ` set d"
      by (elim exE conjE)
    from run c have "db_create m d (store w) = (None, store w')"
      by (auto simp: restoreRecord_def call_def split: prod.splits option.splits)
    with db_create_generated[OF noid k, of "store w"]
    have "store w' = (store w)\<lparr>tables := (tables (store w))(m := tables (store w) m @
                        [(setFields d Map.empty)(''id'' \<mapsto> JNum (nextId (store w) m))]),
                    nextId := (nextId (store w))(m := nextId (store w) m + 1)\<rparr>"
      by (simp split: if_splits)
    then have "tables (store w') m = tables (store w) m
                 @ [(setFields d Map.empty)(''id'' \<mapsto> JNum (nextId (store w) m))]"
      by simp
    moreover have "((setFields d Map.empty)(''id'' \<mapsto> JNum (nextId (store w) m))) ''id''
                     = Some (JNum (nextId (store w) m))" by simp
    ultimately show "\<exists>row. tables (store w') m = tables (store w) m @ [row]
                      \<and> row ''id'' = Some (JNum (nextId (store w) m))"
      by (intro exI[of _ "(setFields d Map.empty)(''id'' \<mapsto> JNum (nextId (store w) m))"] conjI)
  qed
  from merge_call[OF sup assms(2)] obtain upd crt where
    mc: "recordCall (JStr ''merge'') (collectionOf m) r
           = Some (Inr (Upsert m [(keyField m, getprop r (keyField m))] upd crt))"
      "keyField m \<notin> fst ` set upd" "(keyField m, getprop r (keyField m)) \<in> set crt"
    by (elim exE conjE)
  have 4: "\<exists>upd crt. recordCall (JStr ''merge'') (collectionOf m) r
                          = Some (Inr (Upsert m [(''id'', getprop r ''id'')] upd crt))
                        \<and> (''id'', getprop r ''id'') \<in> set crt \<and> ''id'' \<notin> fst ` set upd"
    using mc unfolding k by (intro exI[of _ upd] exI[of _ crt] conjI)
  have 5: "\<forall>w w'. unique_key m (store w) \<longrightarrow>
               restoreRecord db_client (JStr ''merge'') (collectionOf m) r w = (Restored, w') \<longrightarrow>
               length (rowsWith ''id'' (getprop r ''id'') (tables (store w') m)) = 1"
  proof (intro allI impI)
    fix w w' :: "db world"
    assume "unique_key m (store w)"
      and "restoreRecord db_client (JStr ''merge'') (collectionOf m) r w = (Restored, w')"
    from merge_record[OF sup this]
    show "length (rowsWith ''id'' (getprop r ''id'') (tables (store w') m)) = 1"
      unfolding k by simp
  qed
  from 1 2 3 4 5 show ?thesis by (intro conjI)
qed

theorem replace_drops_backup_id_witness:
  "PlayTime \<in> {Song, PlayTime, SystemSettings} \<and> \<not> nullish noon
   \<and> JStr ''replace'' \<noteq> JStr ''merge''
   \<and> getprop noon ''id'' = JNum 5
   \<and> map (\<lambda>r. r ''id'') (tables (store world1) PlayTime) = [Some (JNum 5)]
   \<and> nextId (store world1) PlayTime = 6
   \<and> restoreRecord db_client (JStr ''replace'') (collectionOf PlayTime) noon world1
       = (Restored, replaced_noon)
   \<and> map (\<lambda>r. r ''id'') (tables (store replaced_noon) PlayTime) = [Some (JNum 5), Some (JNum 6)]"
proof -
  have a: "PlayTime \<in> {Song, PlayTime, SystemSettings}" by simp
  have b: "\<not> nullish noon" by code_simp
  have m: "JStr ''replace'' \<noteq> JStr ''merge''" by simp
  have i: "getprop noon ''id'' = JNum 5" by code_simp
  have t: "map (\<lambda>r. r ''id'') (tables (store world1) PlayTime) = [Some (JNum 5)]" by code_simp
  have n: "nextId (store world1) PlayTime = 6" by code_simp
  have "fst (restoreRecord db_client (JStr ''replace'') ''playTimes'' noon world1) = Restored"
    by code_simp
  then have r: "restoreRecord db_client (JStr ''replace'') (collectionOf PlayTime) noon world1
                  = (Restored, replaced_noon)"
    by (simp add: prod_eq_iff replaced_noon_def)
  note c = replace_drops_backup_id[OF a b, THEN conjunct2, THEN conjunct2, THEN conjunct1,
      THEN spec, THEN spec, THEN spec, THEN mp, OF m, THEN mp, OF r]
  from c obtain row where row: "tables (store replaced_noon) PlayTime = tables (store world1) PlayTime @ [row]
      \<and> row ''id'' = Some (JNum (nextId (store world1) PlayTime))" by (rule exE)
  then have "map (\<lambda>r. r ''id'') (tables (store replaced_noon) PlayTime)
               = map (\<lambda>r. r ''id'') (tables (store world1) PlayTime) @ [Some (JNum 6)]"
    unfolding n by simp
  then have f: "map (\<lambda>r. r ''id'') (tables (store replaced_noon) PlayTime) = [Some (JNum 5), Some (JNum 6)]"
    unfolding t by simp
  from a b m i t n r f show ?thesis by (intro conjI)
qed

subsection \<open>C4: a key that is already in the store, when the mode is not merge\<close>

text \<open>
  C4, as the code has it. The mode is not \<^verbatim>\<open>merge\<close>, \<^verbatim>\<open>clearExisting\<close> is off and the
  store is \<open>db_client\<close>. For a record of \<^verbatim>\<open>users\<close> whose \<^verbatim>\<open>username\<close>, or of
  \<^verbatim>\<open>semesters\<close> whose \<^verbatim>\<open>name\<close>, is in the store when the request arrives: the
  handler returns a result (it does not throw); \<^verbatim>\<open>errors\<close> holds the entry made of the
  collection's name, a colon and the message of the failed insert; \<^verbatim>\<open>recordsRestored\<close>
  counts the calls that returned only, and with the number of \<^verbatim>\<open>errors\<close> it adds up to
  the number of records of the supported collections, so all of them have been
  processed; every non-empty known collection has been processed. In the loop, such a
  record pushes exactly that entry, leaves the count and the store as they were, and the
  loop goes on with the records behind it.
\<close>

theorem replace_duplicate_recorded:
  assumes "prisma env = db_client"
    and "loadBackup env req w = (Inr (mode, ce, doc), w1)"
    and "mode \<noteq> JStr ''merge''" and "\<not> truthy ce"
    and "m = User \<or> m = Semester"
    and "r \<in> set (tableRecords (getprop doc ''data'') (collectionOf m))"
    and "\<not> nullish r" and "\<not> nullish (getprop r (keyField m))"
    and "rowsWith (keyField m) (getprop r (keyField m)) (tables (store w) m) \<noteq> []"
  shows "(\<exists>res w'. handler env req w = (Inr res, w')
            \<and> collectionOf m @ '': '' @ unique_failed (keyField m) \<in> set (errors (details res))
            \<and> recordsRestored (details res) = applied (newCalls w w')
            \<and> recordsRestored (details res) + length (errors (details res))
                = sum_list (map (\<lambda>t. length (tableRecords (getprop doc ''data'') t)) supported)
            \<and> tablesProcessed (details res)
                = length (filter (\<lambda>t. tableRecords (getprop doc ''data'') t \<noteq> []) restoreOrder))
         \<and> (\<forall>n res0 w0 rs.
               rowsWith (keyField m) (getprop r (keyField m)) (tables (store w0) m) \<noteq> [] \<longrightarrow>
               (\<exists>d. restoreRecords db_client mode (collectionOf m) (r # rs) (n, res0, w0)
                      = restoreRecords db_client mode (collectionOf m) rs
                          (n, push_error (collectionOf m @ '': '' @ unique_failed (keyField m)) res0,
                           w0\<lparr>calls := calls w0
                                 @ [(Create m d, Some (unique_failed (keyField m)))]\<rparr>)))"
proof -
  let ?data = "getprop doc ''data''"
  let ?e = "collectionOf m @ '': '' @ unique_failed (keyField m)"
  have tx: "\<forall>s. fst (db_client TxBegin s) = None \<and> fst (db_client TxCommit s) = None" by simp
  from restoreData_total[OF tx, of mode ce doc w1] obtain res w' where
    run: "restoreData db_client mode ce doc w1 = (Inr res, w')" by blast
  with assms(1,2) have h: "handler env req w = (Inr res, w')"
    by (simp add: handler_def try_handler_def)
  from loadBackup_world[OF assms(2)] have w1: "store w1 = store w" "calls w1 = calls w" by simp_all
  from assms(4) have pc: "preClear db_client ce w1 = (None, w1)" by (simp add: preClear_def)
  from run pc obtain res1 where
    t: "transaction db_client (restoreTables db_client mode ?data) (initialResults, w1) = (Inr res1, w')"
    and fin: "res = finalize res1"
    by (auto simp: restoreData_unfold split: prod.splits sum.splits)
  from transaction_Inr[OF t] obtain w2 w3 where
    b: "call db_client TxBegin w1 = (None, w2)"
    and rt: "restoreTables db_client mode ?data (initialResults, w2) = (res1, w3)" by blast
  from b w1 have "store w2 = store w" by (auto simp: call_def)
  with assms(9) have ex: "rowsWith (keyField m) (getprop r (keyField m)) (tables (store w2) m) \<noteq> []"
    by simp
  from assms(5) have "collectionOf m \<in> set restoreOrder" by (auto simp: restoreOrder_def)
  from duplicate_in_fold[OF assms(5,3,7,8,6) this ex rt[unfolded restoreTables_def]] fin
  have 1: "?e \<in> set (errors (details res))" by simp
  from restoreData_Inr[OF run] obtain r0 dlog rlog where sh:
    "calls w' = calls w1 @ dlog @ [(TxBegin, None)] @ rlog @ [(TxCommit, None)]"
    "if truthy ce
     then (case r0 of None \<Rightarrow> dlog = deleted clearOrder
           | Some e \<Rightarrow> (\<exists>pre m post. clearOrder = pre @ m # post
                          \<and> dlog = deleted pre @ [(DeleteMany m, Some e)]))
     else r0 = None \<and> dlog = []"
    "recordsRestored (details res) = applied rlog"
    "tablesProcessed (details res) = length (tablesIn ?data)"
    "applied rlog + length (errors (details res)) = length (recordsIn ?data)"
    by blast
  from sh(2) assms(4) have "dlog = []" by simp
  with sh(1) w1 have "applied (newCalls w w') = applied rlog"
    by (simp add: newCalls_def applied_def)
  with sh(3-5) have 2: "recordsRestored (details res) = applied (newCalls w w')
            \<and> recordsRestored (details res) + length (errors (details res))
                = sum_list (map (\<lambda>t. length (tableRecords ?data t)) supported)
            \<and> tablesProcessed (details res)
                = length (filter (\<lambda>t. tableRecords ?data t \<noteq> []) restoreOrder)"
    by (simp add: tablesIn_def length_recordsIn)
  have 3: "\<forall>n res0 w0 rs.
               rowsWith (keyField m) (getprop r (keyField m)) (tables (store w0) m) \<noteq> [] \<longrightarrow>
               (\<exists>d. restoreRecords db_client mode (collectionOf m) (r # rs) (n, res0, w0)
                      = restoreRecords db_client mode (collectionOf m) rs
                          (n, push_error ?e res0,
                           w0\<lparr>calls := calls w0
                                 @ [(Create m d, Some (unique_failed (keyField m)))]\<rparr>))"
  proof (intro allI impI)
    fix n :: nat and res0 :: restoreResults and w0 :: "db world" and rs :: "jsval list"
    assume "rowsWith (keyField m) (getprop r (keyField m)) (tables (store w0) m) \<noteq> []"
    from duplicate_step[OF assms(5,3,7,8) this] obtain d where
      "restoreRecord db_client mode (collectionOf m) r w0
               = (Failed (unique_failed (keyField m)),
                  w0\<lparr>calls := calls w0 @ [(Create m d, Some (unique_failed (keyField m)))]\<rparr>)"
      by blast
    then have "restoreRecords db_client mode (collectionOf m) (r # rs) (n, res0, w0)
                      = restoreRecords db_client mode (collectionOf m) rs
                          (n, push_error ?e res0,
                           w0\<lparr>calls := calls w0
                                 @ [(Create m d, Some (unique_failed (keyField m)))]\<rparr>)"
      by simp
    then show "\<exists>d. restoreRecords db_client mode (collectionOf m) (r # rs) (n, res0, w0)
                      = restoreRecords db_client mode (collectionOf m) rs
                          (n, push_error ?e res0,
                           w0\<lparr>calls := calls w0
                                 @ [(Create m d, Some (unique_failed (keyField m)))]\<rparr>)"
      by (rule exI)
  qed
  from h 1 2 have "\<exists>res w'. handler env req w = (Inr res, w')
            \<and> ?e \<in> set (errors (details res))
            \<and> recordsRestored (details res) = applied (newCalls w w')
            \<and> recordsRestored (details res) + length (errors (details res))
                = sum_list (map (\<lambda>t. length (tableRecords ?data t)) supported)
            \<and> tablesProcessed (details res)
                = length (filter (\<lambda>t. tableRecords ?data t \<noteq> []) restoreOrder)"
    by (intro exI[of _ res] exI[of _ w'] conjI) simp_all
  with 3 show ?thesis by (intro conjI)
qed

theorem replace_duplicate_recorded_witness:
  "prisma (sample_env db_client) = db_client
   \<and> loadBackup (sample_env db_client) (sample_request ''a.json'' ''replace'' False) world1
       = (Inr (JStr ''replace'', JBool False, backup_a),
          snd (loadBackup (sample_env db_client) (sample_request ''a.json'' ''replace'' False) world1))
   \<and> JStr ''replace'' \<noteq> JStr ''merge'' \<and> \<not> truthy (JBool False)
   \<and> alice \<in> set (tableRecords (getprop backup_a ''data'') (collectionOf User))
   \<and> \<not> nullish alice \<and> \<not> nullish (getprop alice (keyField User))
   \<and> rowsWith (keyField User) (getprop alice (keyField User)) (tables (store world1) User) \<noteq> []
   \<and> run_a_replace = (Inr (projr (fst run_a_replace)), snd run_a_replace)
   \<and> ''users: '' @ unique_failed ''username'' \<in> set (errors (details (projr (fst run_a_replace))))
   \<and> length (errors (details (projr (fst run_a_replace)))) = 1
   \<and> recordsRestored (details (projr (fst run_a_replace))) = 2
   \<and> tablesProcessed (details (projr (fst run_a_replace))) = 3"
proof -
  let ?l = "loadBackup (sample_env db_client) (sample_request ''a.json'' ''replace'' False) world1"
  have p: "prisma (sample_env db_client) = db_client" by (simp add: sample_env_def)
  have "fst ?l = Inr (JStr ''replace'', JBool False, backup_a)" by code_simp
  then have l: "?l = (Inr (JStr ''replace'', JBool False, backup_a), snd ?l)"
    by (simp add: prod_eq_iff)
  have m: "JStr ''replace'' \<noteq> JStr ''merge''" by simp
  have c: "\<not> truthy (JBool False)" by simp
  have u: "User = User \<or> User = Semester" by simp
  have i: "alice \<in> set (tableRecords (getprop backup_a ''data'') (collectionOf User))" by code_simp
  have a: "\<not> nullish alice" by code_simp
  have k: "\<not> nullish (getprop alice (keyField User))" by code_simp
  have e: "rowsWith (keyField User) (getprop alice (keyField User)) (tables (store world1) User) \<noteq> []"
    by code_simp
  have n: "length (errors (details (projr (fst run_a_replace)))) = 1" by code_simp
  have s: "sum_list (map (\<lambda>t. length (tableRecords (getprop backup_a ''data'') t)) supported) = 3"
    by code_simp
  have t: "length (filter (\<lambda>t. tableRecords (getprop backup_a ''data'') t \<noteq> []) restoreOrder) = 3"
    by code_simp
  note th = replace_duplicate_recorded[OF p l m c u i a k e, THEN conjunct1]
  from th obtain res w' where r:
    "handler (sample_env db_client) (sample_request ''a.json'' ''replace'' False) world1 = (Inr res, w')
       \<and> collectionOf User @ '': '' @ unique_failed (keyField User) \<in> set (errors (details res))
       \<and> recordsRestored (details res) = applied (newCalls world1 w')
       \<and> recordsRestored (details res) + length (errors (details res))
           = sum_list (map (\<lambda>t. length (tableRecords (getprop backup_a ''data'') t)) supported)
       \<and> tablesProcessed (details res)
           = length (filter (\<lambda>t. tableRecords (getprop backup_a ''data'') t \<noteq> []) restoreOrder)"
    by (elim exE)
  then have run: "run_a_replace = (Inr res, w')" by (simp add: run_a_replace_def)
  have res: "projr (fst run_a_replace) = res"
    and h: "run_a_replace = (Inr (projr (fst run_a_replace)), snd run_a_replace)"
    by (simp_all add: run)
  from r have 1: "''users: '' @ unique_failed ''username'' \<in> set (errors (details (projr (fst run_a_replace))))"
    unfolding res by simp
  from r n s have 2: "recordsRestored (details (projr (fst run_a_replace))) = 2"
    unfolding res[symmetric] by simp
  from r t have 3: "tablesProcessed (details (projr (fst run_a_replace))) = 3"
    unfolding res[symmetric] by simp
  from p l m c i a k e h 1 n 2 3 show ?thesis by (intro conjI)
qed

text \<open>
  The claim as stated covers every collection. A record of \<^verbatim>\<open>playTimes\<close> whose \<^verbatim>\<open>id\<close>
  is in the store is inserted without that \<^verbatim>\<open>id\<close>: no entry is pushed and the record is
  counted.
\<close>

theorem replace_existing_id_counterexample:
  "getprop noon ''id'' = JNum 5
   \<and> rowsWith (keyField PlayTime) (getprop noon (keyField PlayTime)) (tables (store world1) PlayTime) \<noteq> []
   \<and> \<not> isl (fst run_d)
   \<and> errors (details (projr (fst run_d))) = []
   \<and> recordsRestored (details (projr (fst run_d))) = 1
   \<and> map (\<lambda>r. r ''id'') (tables (store (snd run_d)) PlayTime) = [Some (JNum 5), Some (JNum 6)]"
  by code_simp

end
